(* ===== verification/Ums_Prelude.thy ===== *)
theory Ums_Prelude
  imports Main "HOL-Library.Word" "HOL-Library.Multiset"
begin

text \<open>
  Shared base of the development. It fixes how Go values appear in HOL: machine
  integers at their width, \<open>(value, error)\<close> results as sums, panics as a
  constructor of an outcome type, strings as byte lists. It also holds the lemmas on
  lists, maps and words that several components use, and the collections the component
  theories extend.
\<close>

named_theorems store_simps "rewriting rules of the users table and the repository"
named_theorems wire_simps "rewriting rules of the JSON encoders and decoders"
named_theorems rpc_simps "rewriting rules of the RPC handlers and of the RPC client"
named_theorems cache_simps "rewriting rules of the client side cache"
named_theorems ws_simps "rewriting rules of the WebSocket hub and clients"

subsection \<open>Machine integers\<close>

text \<open>
  Go's \<open>int\<close> on 64 bit targets, \<open>int32\<close>, and the 16 bytes of a \<open>uuid.UUID\<close>.
\<close>

type_synonym go_int = "64 word"
type_synonym go_int32 = "32 word"
type_synonym uuid = "128 word"

text \<open>
  The range of a signed integer of \<open>n\<close> bits, as \<open>strconv\<close> and
  \<open>encoding/json\<close> check it before they store a parsed number.
\<close>

definition fits_signed :: "nat \<Rightarrow> int \<Rightarrow> bool" where
  "fits_signed n i \<longleftrightarrow> - (2 ^ (n - 1)) \<le> i \<and> i < 2 ^ (n - 1)"

lemma sint_word_of_int_fits:
  "fits_signed LENGTH('a) i \<Longrightarrow> sint (word_of_int i :: 'a::len word) = i"
  by (simp add: fits_signed_def sint_sbintrunc' signed_take_bit_int_eq_self)

lemma fits_signed_sint: "fits_signed LENGTH('a) (sint (w :: 'a::len word))"
  using sint_range_size [of w] by (simp add: fits_signed_def word_size)

lemma fits_signed_sint_64 [simp]: "fits_signed 64 (sint (w :: go_int))"
  using fits_signed_sint [of w] by simp

lemma fits_signed_sint_32 [simp]: "fits_signed 32 (sint (w :: go_int32))"
  using fits_signed_sint [of w] by simp

lemma sint_word_of_int_fits_32 [simp]:
  "fits_signed 32 i \<Longrightarrow> sint (word_of_int i :: go_int32) = i"
  using sint_word_of_int_fits [where 'a = 32, of i] by simp

lemma sint_word_of_int_fits_64 [simp]:
  "fits_signed 64 i \<Longrightarrow> sint (word_of_int i :: go_int) = i"
  using sint_word_of_int_fits [where 'a = 64, of i] by simp

text \<open>
  Go's conversions between signed widths: \<open>int32(x)\<close> of an \<open>int\<close> keeps the low 32
  bits, \<open>int(x)\<close> of an \<open>int32\<close> extends the sign.
\<close>

definition to_int32 :: "go_int \<Rightarrow> go_int32" where
  "to_int32 x = word_of_int (sint x)"

definition to_int :: "go_int32 \<Rightarrow> go_int" where
  "to_int x = word_of_int (sint x)"

lemma fits_signed_mono: "fits_signed 32 i \<Longrightarrow> fits_signed 64 i"
  by (simp add: fits_signed_def)

lemma sint_to_int [simp]: "sint (to_int x) = sint x"
  unfolding to_int_def by (rule sint_word_of_int_fits_64) (simp add: fits_signed_mono)

lemma to_int32_to_int [simp]: "to_int32 (to_int x) = x"
  by (simp add: to_int32_def)

lemma sint_to_int32: "fits_signed 32 (sint x) \<Longrightarrow> sint (to_int32 x) = sint x"
  unfolding to_int32_def by (rule sint_word_of_int_fits_32)

lemma to_int_to_int32: "fits_signed 32 (sint x) \<Longrightarrow> to_int (to_int32 x) = x"
  unfolding to_int_def by (subst sint_to_int32) simp_all

subsection \<open>Panics\<close>

text \<open>
  A Go call that may panic yields an outcome. \<open>Panic\<close> carries the run time error's
  text.
\<close>

datatype 'a outcome = Return 'a | Panic string

subsection \<open>Strings\<close>

text \<open>
  A Go string is its list of bytes. \<open>rune_count\<close> is \<open>utf8.RuneCountInString\<close> on
  valid UTF-8, and PostgreSQL's character count: every byte starts a rune except the
  continuation bytes \<open>10xxxxxx\<close>.
\<close>

definition rune_start :: "char \<Rightarrow> bool" where
  "rune_start c \<longleftrightarrow> \<not> (128 \<le> (of_char c :: nat) \<and> (of_char c :: nat) < 192)"

definition rune_count :: "string \<Rightarrow> nat" where
  "rune_count s = length (filter rune_start s)"

lemma rune_count_Nil [simp]: "rune_count [] = 0"
  by (simp add: rune_count_def)

lemma rune_count_append [simp]: "rune_count (s @ t) = rune_count s + rune_count t"
  by (simp add: rune_count_def)

subsection \<open>Lists and maps\<close>

lemma fst_eq_pair: "\<lbrakk>f = (a, r); fst f = b\<rbrakk> \<Longrightarrow> a = b"
  by simp

lemma find_None_iff_all: "List.find P xs = None \<longleftrightarrow> (\<forall>x\<in>set xs. \<not> P x)"
  by (auto simp: find_None_iff)

lemma find_SomeD: "List.find P xs = Some x \<Longrightarrow> x \<in> set xs \<and> P x"
  by (induction xs) (auto split: if_splits)

lemma filter_key_unique:
  "\<lbrakk>distinct (map f xs); x \<in> set xs\<rbrakk> \<Longrightarrow> filter (\<lambda>y. f y = f x) xs = [x]"
proof (induction xs)
  case (Cons a xs)
  show ?case
  proof (cases "a = x")
    case True
    with Cons.prems have "\<forall>y\<in>set xs. f y \<noteq> f x" by (auto simp: image_iff)
    with True show ?thesis by (simp add: filter_empty_conv)
  next
    case False
    then have x: "x \<in> set xs" using Cons.prems(2) by simp
    then have "f a \<noteq> f x" using Cons.prems(1) by (metis distinct.simps(2) image_eqI list.map(2) list.set_map)
    with x Cons show ?thesis by simp
  qed
qed simp

end
