(* ===== verification/Go_Json.thy ===== *)
theory Go_Json
  imports Ums_Prelude
begin

text \<open>
  What the two services use of Go's \<open>encoding/json\<close>: a document is a \<open>json\<close>
  value, \<open>json.Marshal\<close> of a struct is the object of its fields in declaration order
  (\<open>omitempty\<close> fields left out when empty), \<open>json.Unmarshal\<close> writes an object's
  members into a struct that already holds values. The text syntax is not modelled: the
  bytes of a message are \<open>None\<close> when they are not one JSON document, and
  \<open>Some j\<close> for the document \<open>j\<close>. Strings are the byte strings the parser
  delivers.

  Decoding keeps Go's rules: \<open>null\<close> leaves a scalar or a struct as it is and clears a
  pointer, unknown members are skipped, a member's name matches a field exactly or else
  under Unicode case folding, a repeated member is decoded over the earlier one, a number
  outside the field's range or a value of the wrong kind is an error. Go goes on after such
  an error and reports it at the end; no caller looks at the struct then, so the model
  yields \<open>None\<close> at once.
\<close>

datatype json =
    JNull
  | JBool bool
  | JInt int
  | JReal string
  | JStr string
  | JArr "json list"
  | JObj "(string \<times> json) list"

subsection \<open>Member names\<close>

text \<open>
  \<open>foldName\<close> of \<open>encoding/json\<close> on the bytes of a member name. All field names are
  ASCII, so only ASCII letters and the two runes that fold to one matter: U+017F (long s)
  and U+212A (the Kelvin sign).
\<close>

definition ascii_upper :: "char \<Rightarrow> char" where
  "ascii_upper c =
     (let n = (of_char c :: nat) in if 97 \<le> n \<and> n \<le> 122 then char_of (n - 32) else c)"

fun fold_name :: "string \<Rightarrow> string" where
  "fold_name [] = []"
| "fold_name (c # cs) =
     (if c = CHR 0xC5 \<and> take 1 cs = [CHR 0xBF] then CHR ''S'' # fold_name (drop 1 cs)
      else if c = CHR 0xE2 \<and> take 2 cs = [CHR 0x84, CHR 0xAA]
      then CHR ''K'' # fold_name (drop 2 cs)
      else ascii_upper c # fold_name cs)"

subsection \<open>Decoding\<close>

text \<open>
  A decoder gets the value and what the target holds, and yields the target's new content,
  or \<open>None\<close> for an error. A struct is given by the list of its fields' names and decoders.
\<close>

type_synonym 'a decoder = "json \<Rightarrow> 'a \<Rightarrow> 'a option"
type_synonym 'r fields = "(string \<times> 'r decoder) list"

definition find_field :: "'r fields \<Rightarrow> string \<Rightarrow> 'r decoder option" where
  "find_field fs k =
     (case map_of fs k of
        Some d \<Rightarrow> Some d
      | None \<Rightarrow> map_of (map (\<lambda>(n, d). (fold_name n, d)) fs) (fold_name k))"

fun dec_members :: "'r fields \<Rightarrow> (string \<times> json) list \<Rightarrow> 'r \<Rightarrow> 'r option" where
  "dec_members fs [] r = Some r"
| "dec_members fs ((k, j) # kvs) r =
     (case find_field fs k of
        None \<Rightarrow> dec_members fs kvs r
      | Some d \<Rightarrow>
          (case d j r of
             None \<Rightarrow> None
           | Some r' \<Rightarrow> dec_members fs kvs r'))"

fun dec_struct :: "'r fields \<Rightarrow> 'r decoder" where
  "dec_struct fs JNull r = Some r"
| "dec_struct fs (JObj kvs) r = dec_members fs kvs r"
| "dec_struct fs _ r = None"

fun dec_string :: "string decoder" where
  "dec_string JNull old = Some old"
| "dec_string (JStr s) old = Some s"
| "dec_string _ old = None"

fun dec_int64 :: "go_int decoder" where
  "dec_int64 JNull old = Some old"
| "dec_int64 (JInt i) old = (if fits_signed 64 i then Some (word_of_int i) else None)"
| "dec_int64 _ old = None"

fun dec_int32 :: "go_int32 decoder" where
  "dec_int32 JNull old = Some old"
| "dec_int32 (JInt i) old = (if fits_signed 32 i then Some (word_of_int i) else None)"
| "dec_int32 _ old = None"

text \<open>
  A pointer field: \<open>null\<close> makes it nil, any other value is decoded into what it points
  to, or into a fresh zero value when it is nil.
\<close>

definition dec_ptr :: "'a decoder \<Rightarrow> 'a \<Rightarrow> 'a option decoder" where
  "dec_ptr d zero j old =
     (if j = JNull then Some None
      else map_option Some (d j (case old of None \<Rightarrow> zero | Some v \<Rightarrow> v)))"

text \<open>
  A slice field: elements are decoded over the old ones as far as those go, and the length
  becomes the array's. A nil slice is \<open>None\<close>.
\<close>

fun dec_elems :: "'a decoder \<Rightarrow> 'a \<Rightarrow> json list \<Rightarrow> 'a list \<Rightarrow> 'a list option" where
  "dec_elems d zero [] old = Some []"
| "dec_elems d zero (j # js) old =
     (case d j (case old of [] \<Rightarrow> zero | v # _ \<Rightarrow> v) of
        None \<Rightarrow> None
      | Some v \<Rightarrow> map_option ((#) v) (dec_elems d zero js (tl old)))"

fun dec_slice :: "'a decoder \<Rightarrow> 'a \<Rightarrow> 'a list option decoder" where
  "dec_slice d zero JNull old = Some None"
| "dec_slice d zero (JArr js) old =
     map_option Some (dec_elems d zero js (case old of None \<Rightarrow> [] | Some xs \<Rightarrow> xs))"
| "dec_slice d zero _ old = None"

text \<open>A \<open>json.RawMessage\<close> field keeps the member's bytes, \<open>null\<close> included.\<close>

definition dec_raw :: "json option decoder" where
  "dec_raw j old = Some (Some j)"

text \<open>One field of a struct: how to read it, how to write it, how to decode it.\<close>

definition field :: "('r \<Rightarrow> 'a) \<Rightarrow> ('a \<Rightarrow> 'r \<Rightarrow> 'r) \<Rightarrow> 'a decoder \<Rightarrow> 'r decoder" where
  "field get put d j r = map_option (\<lambda>v. put v r) (d j (get r))"

text \<open>\<open>json.Unmarshal(data, &v)\<close> with \<open>v\<close> holding \<open>zero\<close>.\<close>

definition unmarshal :: "'a decoder \<Rightarrow> 'a \<Rightarrow> json option \<Rightarrow> 'a option" where
  "unmarshal d zero data = (case data of None \<Rightarrow> None | Some j \<Rightarrow> d j zero)"

subsection \<open>Encoding\<close>

text \<open>
  An object from its fields, \<open>None\<close> for a field that \<open>omitempty\<close> leaves out. A nil
  pointer without \<open>omitempty\<close> and a nil slice are \<open>null\<close>.
\<close>

definition obj :: "(string \<times> json option) list \<Rightarrow> json" where
  "obj fs = JObj (concat (map (\<lambda>(k, v). case v of None \<Rightarrow> [] | Some j \<Rightarrow> [(k, j)]) fs))"

definition enc_int :: "'a::len word \<Rightarrow> json" where
  "enc_int w = JInt (sint w)"

definition enc_slice :: "('a \<Rightarrow> json) \<Rightarrow> 'a list option \<Rightarrow> json" where
  "enc_slice e xs = (case xs of None \<Rightarrow> JNull | Some ys \<Rightarrow> JArr (map e ys))"

subsection \<open>Lemmas\<close>

lemma unmarshal_simps [wire_simps]:
  "unmarshal d z None = None"
  "unmarshal d z (Some j) = d j z"
  by (simp_all add: unmarshal_def)

lemma obj_simps [wire_simps]:
  "obj [] = JObj []"
  "obj ((k, None) # fs) = obj fs"
  "obj ((k, Some j) # fs) = (case obj fs of JObj kvs \<Rightarrow> JObj ((k, j) # kvs))"
  by (simp_all add: obj_def)

lemma find_field_exact [wire_simps]: "map_of fs k = Some d \<Longrightarrow> find_field fs k = Some d"
  by (simp add: find_field_def)

lemma dec_ptr_simps [wire_simps]:
  "dec_ptr d z JNull old = Some None"
  "j \<noteq> JNull \<Longrightarrow> dec_ptr d z j old = map_option Some (d j (case old of None \<Rightarrow> z | Some v \<Rightarrow> v))"
  by (simp_all add: dec_ptr_def)

lemma dec_int64_enc_int [wire_simps]: "dec_int64 (enc_int w) old = Some w"
  by (simp add: enc_int_def)

lemma dec_int32_enc_int [wire_simps]: "dec_int32 (enc_int w) old = Some w"
  by (simp add: enc_int_def)

lemma enc_int_not_null [wire_simps]: "enc_int w \<noteq> JNull"
  by (simp add: enc_int_def)

text \<open>
  A slice round trip: when decoding into a fresh element undoes the encoder, decoding into a
  nil slice undoes the slice's.
\<close>

lemma dec_elems_map:
  "(\<And>x. d (e x) z = Some x) \<Longrightarrow> dec_elems d z (map e xs) [] = Some xs"
  by (induction xs) auto

lemma dec_slice_enc_slice [wire_simps]:
  "(\<And>x. d (e x) z = Some x) \<Longrightarrow> dec_slice d z (enc_slice e xs) None = Some xs"
  by (simp add: enc_slice_def dec_elems_map split: option.split)

text \<open>Decoding a member list in two steps.\<close>

lemma dec_members_hit [wire_simps]:
  "map_of fs k = Some d \<Longrightarrow>
     dec_members fs ((k, j) # kvs) r =
       (case d j r of None \<Rightarrow> None | Some r' \<Rightarrow> dec_members fs kvs r')"
  by (simp add: find_field_exact)

end
