(* ===== verification/Wire_Types.thy ===== *)
theory Wire_Types
  imports Go_Json
begin

text \<open>
  The messages of \<open>user-service/pkg/userclient\<close> (\<open>types.go\<close>, \<open>subjects.go\<close>):
  requests, responses, events and error codes, with the JSON form their struct tags give
  them. Go types with the same fields and tags share a record here:
  \<open>CreateUserResponse\<close>, \<open>GetUserByIDResponse\<close>, \<open>GetUserByEmailResponse\<close> and
  \<open>UpdateUserResponse\<close> are \<open>user_response\<close>, \<open>ListUsersResponse\<close> and
  \<open>ListAllUsersResponse\<close> are \<open>users_response\<close>, \<open>GetUserByIDRequest\<close> and
  \<open>DeleteUserRequest\<close> are \<open>id_request\<close>. The lemmas show that decoding into a fresh
  struct undoes encoding.
\<close>

subsection \<open>Subjects and error codes\<close>

definition SubjectCreateUser :: string where "SubjectCreateUser = ''users.v1.create''"
definition SubjectGetUserByID :: string where "SubjectGetUserByID = ''users.v1.get.by_id''"
definition SubjectGetUserByEmail :: string where
  "SubjectGetUserByEmail = ''users.v1.get.by_email''"
definition SubjectListUsers :: string where "SubjectListUsers = ''users.v1.list''"
definition SubjectListAllUsers :: string where "SubjectListAllUsers = ''users.v1.list.all''"
definition SubjectUpdateUser :: string where "SubjectUpdateUser = ''users.v1.update''"
definition SubjectDeleteUser :: string where "SubjectDeleteUser = ''users.v1.delete''"
definition SubjectUserCreated :: string where "SubjectUserCreated = ''users.v1.events.created''"
definition SubjectUserUpdated :: string where "SubjectUserUpdated = ''users.v1.events.updated''"
definition SubjectUserDeleted :: string where "SubjectUserDeleted = ''users.v1.events.deleted''"

lemmas subject_defs =
  SubjectCreateUser_def SubjectGetUserByID_def SubjectGetUserByEmail_def SubjectListUsers_def
  SubjectListAllUsers_def SubjectUpdateUser_def SubjectDeleteUser_def
  SubjectUserCreated_def SubjectUserUpdated_def SubjectUserDeleted_def

definition ErrCodeNotFound :: string where "ErrCodeNotFound = ''NOT_FOUND''"
definition ErrCodeAlreadyExists :: string where "ErrCodeAlreadyExists = ''ALREADY_EXISTS''"
definition ErrCodeValidation :: string where "ErrCodeValidation = ''VALIDATION_ERROR''"
definition ErrCodeInternal :: string where "ErrCodeInternal = ''INTERNAL_ERROR''"

lemmas code_defs =
  ErrCodeNotFound_def ErrCodeAlreadyExists_def ErrCodeValidation_def ErrCodeInternal_def

subsection \<open>Messages\<close>

record rpc_error =
  re_Code :: string
  re_Message :: string

record user_dto =
  dto_UserID :: string
  dto_FirstName :: string
  dto_LastName :: string
  dto_Email :: string
  dto_Phone :: "string option"
  dto_Age :: "go_int option"
  dto_Status :: string
  dto_CreatedAt :: string
  dto_UpdatedAt :: string

record create_request =
  cr_FirstName :: string
  cr_LastName :: string
  cr_Email :: string
  cr_Phone :: "string option"
  cr_Age :: "go_int option"
  cr_Status :: string

record id_request =
  ir_UserID :: string

record email_request =
  er_Email :: string

record list_request =
  lr_Status :: "string option"
  lr_Limit :: go_int32
  lr_Offset :: go_int32

record update_request =
  ur_UserID :: string
  ur_FirstName :: string
  ur_LastName :: string
  ur_Email :: string
  ur_Phone :: "string option"
  ur_Age :: "go_int option"
  ur_Status :: string

record user_response =
  resp_User :: "user_dto option"
  resp_Error :: "rpc_error option"

record users_response =
  resps_Users :: "user_dto list option"
  resps_Error :: "rpc_error option"

record delete_response =
  dresp_Error :: "rpc_error option"

record user_event =
  evt_User :: user_dto

record deleted_event =
  evt_UserID :: string

subsection \<open>Zero values\<close>

definition zero_rpc_error :: rpc_error where
  "zero_rpc_error = \<lparr>re_Code = '''', re_Message = ''''\<rparr>"

definition zero_dto :: user_dto where
  "zero_dto = \<lparr>dto_UserID = '''', dto_FirstName = '''', dto_LastName = '''', dto_Email = '''',
     dto_Phone = None, dto_Age = None, dto_Status = '''', dto_CreatedAt = '''',
     dto_UpdatedAt = ''''\<rparr>"

definition zero_create_request :: create_request where
  "zero_create_request = \<lparr>cr_FirstName = '''', cr_LastName = '''', cr_Email = '''',
     cr_Phone = None, cr_Age = None, cr_Status = ''''\<rparr>"

definition zero_update_request :: update_request where
  "zero_update_request = \<lparr>ur_UserID = '''', ur_FirstName = '''', ur_LastName = '''',
     ur_Email = '''', ur_Phone = None, ur_Age = None, ur_Status = ''''\<rparr>"

definition zero_list_request :: list_request where
  "zero_list_request = \<lparr>lr_Status = None, lr_Limit = 0, lr_Offset = 0\<rparr>"

lemmas zero_defs = zero_rpc_error_def zero_dto_def zero_create_request_def
  zero_update_request_def zero_list_request_def

subsection \<open>Encoders\<close>

definition omit_empty :: "string \<Rightarrow> json option" where
  "omit_empty s = (if s = [] then None else Some (JStr s))"

definition enc_rpc_error :: "rpc_error \<Rightarrow> json" where
  "enc_rpc_error e =
     obj [(''code'', Some (JStr (re_Code e))), (''message'', Some (JStr (re_Message e)))]"

definition enc_dto :: "user_dto \<Rightarrow> json" where
  "enc_dto u = obj
     [(''user_id'', Some (JStr (dto_UserID u))),
      (''first_name'', Some (JStr (dto_FirstName u))),
      (''last_name'', Some (JStr (dto_LastName u))),
      (''email'', Some (JStr (dto_Email u))),
      (''phone'', map_option JStr (dto_Phone u)),
      (''age'', map_option enc_int (dto_Age u)),
      (''status'', Some (JStr (dto_Status u))),
      (''created_at'', Some (JStr (dto_CreatedAt u))),
      (''updated_at'', Some (JStr (dto_UpdatedAt u)))]"

definition enc_create_request :: "create_request \<Rightarrow> json" where
  "enc_create_request q = obj
     [(''first_name'', Some (JStr (cr_FirstName q))),
      (''last_name'', Some (JStr (cr_LastName q))),
      (''email'', Some (JStr (cr_Email q))),
      (''phone'', map_option JStr (cr_Phone q)),
      (''age'', map_option enc_int (cr_Age q)),
      (''status'', omit_empty (cr_Status q))]"

definition enc_id_request :: "id_request \<Rightarrow> json" where
  "enc_id_request q = obj [(''user_id'', Some (JStr (ir_UserID q)))]"

definition enc_email_request :: "email_request \<Rightarrow> json" where
  "enc_email_request q = obj [(''email'', Some (JStr (er_Email q)))]"

definition enc_list_request :: "list_request \<Rightarrow> json" where
  "enc_list_request q = obj
     [(''status'', map_option JStr (lr_Status q)),
      (''limit'', Some (enc_int (lr_Limit q))),
      (''offset'', Some (enc_int (lr_Offset q)))]"

definition enc_update_request :: "update_request \<Rightarrow> json" where
  "enc_update_request q = obj
     [(''user_id'', Some (JStr (ur_UserID q))),
      (''first_name'', Some (JStr (ur_FirstName q))),
      (''last_name'', Some (JStr (ur_LastName q))),
      (''email'', Some (JStr (ur_Email q))),
      (''phone'', map_option JStr (ur_Phone q)),
      (''age'', map_option enc_int (ur_Age q)),
      (''status'', Some (JStr (ur_Status q)))]"

definition enc_user_response :: "user_response \<Rightarrow> json" where
  "enc_user_response r = obj
     [(''user'', map_option enc_dto (resp_User r)),
      (''error'', map_option enc_rpc_error (resp_Error r))]"

definition enc_users_response :: "users_response \<Rightarrow> json" where
  "enc_users_response r = obj
     [(''users'', Some (enc_slice enc_dto (resps_Users r))),
      (''error'', map_option enc_rpc_error (resps_Error r))]"

definition enc_delete_response :: "delete_response \<Rightarrow> json" where
  "enc_delete_response r = obj [(''error'', map_option enc_rpc_error (dresp_Error r))]"

definition enc_user_event :: "user_event \<Rightarrow> json" where
  "enc_user_event e = obj [(''user'', Some (enc_dto (evt_User e)))]"

definition enc_deleted_event :: "deleted_event \<Rightarrow> json" where
  "enc_deleted_event e = obj [(''user_id'', Some (JStr (evt_UserID e)))]"

lemmas enc_defs = enc_rpc_error_def enc_dto_def enc_create_request_def enc_id_request_def
  enc_email_request_def enc_list_request_def enc_update_request_def enc_user_response_def
  enc_users_response_def enc_delete_response_def enc_user_event_def enc_deleted_event_def

subsection \<open>Decoders\<close>

definition dec_rpc_error :: "rpc_error decoder" where
  "dec_rpc_error = dec_struct
     [(''code'', field re_Code (\<lambda>v. re_Code_update (\<lambda>_. v)) dec_string),
      (''message'', field re_Message (\<lambda>v. re_Message_update (\<lambda>_. v)) dec_string)]"

definition dec_dto :: "user_dto decoder" where
  "dec_dto = dec_struct
     [(''user_id'', field dto_UserID (\<lambda>v. dto_UserID_update (\<lambda>_. v)) dec_string),
      (''first_name'', field dto_FirstName (\<lambda>v. dto_FirstName_update (\<lambda>_. v)) dec_string),
      (''last_name'', field dto_LastName (\<lambda>v. dto_LastName_update (\<lambda>_. v)) dec_string),
      (''email'', field dto_Email (\<lambda>v. dto_Email_update (\<lambda>_. v)) dec_string),
      (''phone'', field dto_Phone (\<lambda>v. dto_Phone_update (\<lambda>_. v)) (dec_ptr dec_string '''')),
      (''age'', field dto_Age (\<lambda>v. dto_Age_update (\<lambda>_. v)) (dec_ptr dec_int64 0)),
      (''status'', field dto_Status (\<lambda>v. dto_Status_update (\<lambda>_. v)) dec_string),
      (''created_at'', field dto_CreatedAt (\<lambda>v. dto_CreatedAt_update (\<lambda>_. v)) dec_string),
      (''updated_at'', field dto_UpdatedAt (\<lambda>v. dto_UpdatedAt_update (\<lambda>_. v)) dec_string)]"

definition dec_create_request :: "create_request decoder" where
  "dec_create_request = dec_struct
     [(''first_name'', field cr_FirstName (\<lambda>v. cr_FirstName_update (\<lambda>_. v)) dec_string),
      (''last_name'', field cr_LastName (\<lambda>v. cr_LastName_update (\<lambda>_. v)) dec_string),
      (''email'', field cr_Email (\<lambda>v. cr_Email_update (\<lambda>_. v)) dec_string),
      (''phone'', field cr_Phone (\<lambda>v. cr_Phone_update (\<lambda>_. v)) (dec_ptr dec_string '''')),
      (''age'', field cr_Age (\<lambda>v. cr_Age_update (\<lambda>_. v)) (dec_ptr dec_int64 0)),
      (''status'', field cr_Status (\<lambda>v. cr_Status_update (\<lambda>_. v)) dec_string)]"

definition dec_id_request :: "id_request decoder" where
  "dec_id_request = dec_struct
     [(''user_id'', field ir_UserID (\<lambda>v. ir_UserID_update (\<lambda>_. v)) dec_string)]"

definition dec_email_request :: "email_request decoder" where
  "dec_email_request = dec_struct
     [(''email'', field er_Email (\<lambda>v. er_Email_update (\<lambda>_. v)) dec_string)]"

definition dec_list_request :: "list_request decoder" where
  "dec_list_request = dec_struct
     [(''status'', field lr_Status (\<lambda>v. lr_Status_update (\<lambda>_. v)) (dec_ptr dec_string '''')),
      (''limit'', field lr_Limit (\<lambda>v. lr_Limit_update (\<lambda>_. v)) dec_int32),
      (''offset'', field lr_Offset (\<lambda>v. lr_Offset_update (\<lambda>_. v)) dec_int32)]"

definition dec_update_request :: "update_request decoder" where
  "dec_update_request = dec_struct
     [(''user_id'', field ur_UserID (\<lambda>v. ur_UserID_update (\<lambda>_. v)) dec_string),
      (''first_name'', field ur_FirstName (\<lambda>v. ur_FirstName_update (\<lambda>_. v)) dec_string),
      (''last_name'', field ur_LastName (\<lambda>v. ur_LastName_update (\<lambda>_. v)) dec_string),
      (''email'', field ur_Email (\<lambda>v. ur_Email_update (\<lambda>_. v)) dec_string),
      (''phone'', field ur_Phone (\<lambda>v. ur_Phone_update (\<lambda>_. v)) (dec_ptr dec_string '''')),
      (''age'', field ur_Age (\<lambda>v. ur_Age_update (\<lambda>_. v)) (dec_ptr dec_int64 0)),
      (''status'', field ur_Status (\<lambda>v. ur_Status_update (\<lambda>_. v)) dec_string)]"

definition dec_user_response :: "user_response decoder" where
  "dec_user_response = dec_struct
     [(''user'', field resp_User (\<lambda>v. resp_User_update (\<lambda>_. v)) (dec_ptr dec_dto zero_dto)),
      (''error'', field resp_Error (\<lambda>v. resp_Error_update (\<lambda>_. v))
         (dec_ptr dec_rpc_error zero_rpc_error))]"

definition dec_users_response :: "users_response decoder" where
  "dec_users_response = dec_struct
     [(''users'', field resps_Users (\<lambda>v. resps_Users_update (\<lambda>_. v)) (dec_slice dec_dto zero_dto)),
      (''error'', field resps_Error (\<lambda>v. resps_Error_update (\<lambda>_. v))
         (dec_ptr dec_rpc_error zero_rpc_error))]"

definition dec_delete_response :: "delete_response decoder" where
  "dec_delete_response = dec_struct
     [(''error'', field dresp_Error (\<lambda>v. dresp_Error_update (\<lambda>_. v))
         (dec_ptr dec_rpc_error zero_rpc_error))]"

definition dec_user_event :: "user_event decoder" where
  "dec_user_event = dec_struct
     [(''user'', field evt_User (\<lambda>v. evt_User_update (\<lambda>_. v)) dec_dto)]"

definition dec_deleted_event :: "deleted_event decoder" where
  "dec_deleted_event = dec_struct
     [(''user_id'', field evt_UserID (\<lambda>v. evt_UserID_update (\<lambda>_. v)) dec_string)]"

subsection \<open>Round trips\<close>

lemma enc_not_null [wire_simps]:
  "enc_rpc_error e \<noteq> JNull" "enc_dto u \<noteq> JNull"
  by (cases "dto_Phone u"; cases "dto_Age u"; simp add: enc_defs wire_simps)+

lemma rpc_error_roundtrip [wire_simps]: "dec_rpc_error (enc_rpc_error e) r = Some e"
  by (simp add: dec_rpc_error_def enc_rpc_error_def wire_simps field_def)

lemma dto_roundtrip [wire_simps]: "dec_dto (enc_dto u) zero_dto = Some u"
  by (cases "dto_Phone u"; cases "dto_Age u")
    (simp_all add: dec_dto_def enc_dto_def wire_simps field_def zero_dto_def)

lemma create_request_roundtrip [wire_simps]:
  "dec_create_request (enc_create_request q) zero_create_request = Some q"
  by (cases "cr_Phone q"; cases "cr_Age q"; cases "cr_Status q = []")
    (simp_all add: dec_create_request_def enc_create_request_def wire_simps field_def
      zero_create_request_def omit_empty_def)

lemma id_request_roundtrip [wire_simps]: "dec_id_request (enc_id_request q) r = Some q"
  by (simp add: dec_id_request_def enc_id_request_def wire_simps field_def)

lemma email_request_roundtrip [wire_simps]: "dec_email_request (enc_email_request q) r = Some q"
  by (simp add: dec_email_request_def enc_email_request_def wire_simps field_def)

lemma list_request_roundtrip [wire_simps]:
  "dec_list_request (enc_list_request q) zero_list_request = Some q"
  by (cases "lr_Status q")
    (simp_all add: dec_list_request_def enc_list_request_def wire_simps field_def
      zero_list_request_def)

lemma update_request_roundtrip [wire_simps]:
  "dec_update_request (enc_update_request q) zero_update_request = Some q"
  by (cases "ur_Phone q"; cases "ur_Age q")
    (simp_all add: dec_update_request_def enc_update_request_def wire_simps field_def
      zero_update_request_def)

lemma user_response_roundtrip [wire_simps]:
  "dec_user_response (enc_user_response r) \<lparr>resp_User = None, resp_Error = None\<rparr> = Some r"
  by (cases "resp_User r"; cases "resp_Error r")
    (simp_all add: dec_user_response_def enc_user_response_def wire_simps field_def)

lemma users_response_roundtrip [wire_simps]:
  "dec_users_response (enc_users_response r) \<lparr>resps_Users = None, resps_Error = None\<rparr> = Some r"
  by (cases "resps_Error r")
    (simp_all add: dec_users_response_def enc_users_response_def wire_simps field_def)

lemma delete_response_roundtrip [wire_simps]:
  "dec_delete_response (enc_delete_response r) \<lparr>dresp_Error = None\<rparr> = Some r"
  by (cases "dresp_Error r")
    (simp_all add: dec_delete_response_def enc_delete_response_def wire_simps field_def)

lemma user_event_roundtrip [wire_simps]:
  "dec_user_event (enc_user_event e) \<lparr>evt_User = zero_dto\<rparr> = Some e"
  by (simp add: dec_user_event_def enc_user_event_def wire_simps field_def)

lemma deleted_event_roundtrip [wire_simps]:
  "dec_deleted_event (enc_deleted_event e) r = Some e"
  by (simp add: dec_deleted_event_def enc_deleted_event_def wire_simps field_def)

end
