(* ===== verification/User_Cache.thy ===== *)
theory User_Cache
  imports Wire_Types
begin

text \<open>
  \<open>pkg/userclient/cache.go\<close>: the map from user ids to users that a client keeps. Every
  operation runs under the cache's lock, so it is one step. Go iterates over a map in any
  order: the operations that range over it take that order, a list of the keys, as an
  argument (\<open>iteration_ok\<close>).
\<close>

type_synonym cache = "string \<rightharpoonup> user_dto"

definition newCache :: cache where
  "newCache = Map.empty"

definition cache_get :: "cache \<Rightarrow> string \<Rightarrow> user_dto option" where
  "cache_get c i = c i"

definition cache_set :: "user_dto \<Rightarrow> cache \<Rightarrow> cache" where
  "cache_set u c = c(dto_UserID u \<mapsto> u)"

definition cache_delete :: "string \<Rightarrow> cache \<Rightarrow> cache" where
  "cache_delete i c = c(i := None)"

definition iteration_ok :: "string list \<Rightarrow> cache \<Rightarrow> bool" where
  "iteration_ok it c \<longleftrightarrow> distinct it \<and> set it = dom c"

definition cache_values :: "string list \<Rightarrow> cache \<Rightarrow> user_dto list" where
  "cache_values it c = List.map_filter c it"

definition cache_getByEmail :: "string list \<Rightarrow> cache \<Rightarrow> string \<Rightarrow> user_dto option" where
  "cache_getByEmail it c email = List.find (\<lambda>u. dto_Email u = email) (cache_values it c)"

definition status_wanted :: "string option \<Rightarrow> user_dto \<Rightarrow> bool" where
  "status_wanted status u = (status = None \<or> Some (dto_Status u) = status)"

text \<open>
  \<open>list\<close>: offset and limit are sign extended to \<open>int\<close>, where their sum cannot overflow,
  so they are integers here. The slice expression \<open>filtered[start:end]\<close> panics unless
  \<open>0 \<le> start \<le> end\<close>; \<open>end\<close> is at most the length by then.
\<close>

definition slice :: "'a list \<Rightarrow> int \<Rightarrow> int \<Rightarrow> 'a list outcome" where
  "slice xs start end' =
     (if 0 \<le> start \<and> start \<le> end' \<and> end' \<le> int (length xs)
      then Return (take (nat (end' - start)) (drop (nat start) xs))
      else Panic ''slice bounds out of range'')"

definition cache_list ::
  "string list \<Rightarrow> cache \<Rightarrow> string option \<Rightarrow> go_int32 \<Rightarrow> go_int32 \<Rightarrow> user_dto list outcome" where
  "cache_list it c status limit offset =
     (let filtered = filter (status_wanted status) (cache_values it c) in
      if limit = 0 then Return filtered
      else
        let start = sint offset in
        if start \<ge> int (length filtered) then Return []
        else
          let end' = start + sint limit;
              end'' = (if end' > int (length filtered) then int (length filtered) else end')
          in slice filtered start end'')"

subsection \<open>The cache as a keyed store\<close>

text \<open>
  What the client relies on: a lookup sees the last write to its key. From this, a sequence
  of writes and deletes leaves under each key what the last of them on that key did.
\<close>

datatype 'v store_write = Put 'v | Drop string

locale keyed_store =
  fixes key :: "'v \<Rightarrow> string"
    and empty :: 's
    and get :: "'s \<Rightarrow> string \<Rightarrow> 'v option"
    and put :: "'v \<Rightarrow> 's \<Rightarrow> 's"
    and drop' :: "string \<Rightarrow> 's \<Rightarrow> 's"
  assumes get_empty: "get empty k = None"
    and get_put: "get (put v s) k = (if k = key v then Some v else get s k)"
    and get_drop: "get (drop' j s) k = (if k = j then None else get s k)"
begin

fun write1 :: "'v store_write \<Rightarrow> 's \<Rightarrow> 's" where
  "write1 (Put v) s = put v s"
| "write1 (Drop k) s = drop' k s"

fun touches :: "'v store_write \<Rightarrow> string" where
  "touches (Put v) = key v"
| "touches (Drop k) = k"

fun leaves :: "'v store_write \<Rightarrow> 'v option" where
  "leaves (Put v) = Some v"
| "leaves (Drop k) = None"

lemma get_write1: "get (write1 w s) k = (if k = touches w then leaves w else get s k)"
  by (cases w) (simp_all add: get_put get_drop)

lemma get_writes:
  "get (fold write1 ws s) k =
     (case List.find (\<lambda>w. touches w = k) (rev ws) of None \<Rightarrow> get s k | Some w \<Rightarrow> leaves w)"
  by (induction ws rule: rev_induct) (simp_all add: get_write1)

lemma get_writes_frame:
  "(\<And>w. w \<in> set ws \<Longrightarrow> touches w \<noteq> k) \<Longrightarrow> get (fold write1 ws s) k = get s k"
  by (induction ws arbitrary: s) (auto simp: get_write1)

lemma get_writes_cong:
  "(\<And>k. get s k = get t k) \<Longrightarrow> get (fold write1 ws s) k = get (fold write1 ws t) k"
  by (simp add: get_writes split: option.split)

end

interpretation user_cache: keyed_store dto_UserID newCache cache_get cache_set cache_delete
  by unfold_locales (auto simp: newCache_def cache_get_def cache_set_def cache_delete_def)

subsection \<open>Lemmas\<close>

lemma cache_values_set: "iteration_ok it c \<Longrightarrow> set (cache_values it c) = ran c"
  by (auto simp: cache_values_def iteration_ok_def List.map_filter_def ran_def)
    (metis (mono_tags, lifting) domI image_eqI mem_Collect_eq option.sel)

lemma length_cache_values: "iteration_ok it c \<Longrightarrow> length (cache_values it c) = card (dom c)"
proof -
  assume ok: "iteration_ok it c"
  then have "\<forall>k\<in>set it. c k \<noteq> None" by (auto simp: iteration_ok_def)
  then have "length (cache_values it c) = length it"
    by (induction it) (auto simp: cache_values_def List.map_filter_simps)
  with ok distinct_card [of it] show ?thesis by (simp add: iteration_ok_def)
qed

lemma cache_getByEmail_Some:
  "\<lbrakk>iteration_ok it c; cache_getByEmail it c em = Some u\<rbrakk> \<Longrightarrow> u \<in> ran c \<and> dto_Email u = em"
  by (auto simp: cache_getByEmail_def cache_values_set dest: find_SomeD)

lemma cache_getByEmail_None:
  "iteration_ok it c \<Longrightarrow>
     cache_getByEmail it c em = None \<longleftrightarrow> (\<forall>u\<in>ran c. dto_Email u \<noteq> em)"
  by (auto simp: cache_getByEmail_def find_None_iff_all simp flip: cache_values_set)

text \<open>When \<open>list\<close> panics, and what it returns otherwise.\<close>

lemma cache_list_panics_iff:
  "(\<exists>m. cache_list it c st lim off = Panic m) \<longleftrightarrow>
     lim \<noteq> 0 \<and> sint off < int (length (filter (status_wanted st) (cache_values it c)))
     \<and> (sint off < 0 \<or> sint lim < 0)"
  by (auto simp: cache_list_def slice_def Let_def)

lemma cache_list_page:
  assumes "0 \<le> sint off" and "0 < sint lim"
  shows "cache_list it c st lim off =
    Return (take (nat (sint lim)) (drop (nat (sint off))
      (filter (status_wanted st) (cache_values it c))))"
proof -
  have "lim \<noteq> 0" using assms(2) by auto
  with assms show ?thesis
    by (auto simp: cache_list_def slice_def Let_def nat_add_distrib nat_diff_distrib)
qed

text \<open>Every user is stored under its own id.\<close>

definition cache_keyed :: "cache \<Rightarrow> bool" where
  "cache_keyed c \<longleftrightarrow> (\<forall>k u. c k = Some u \<longrightarrow> dto_UserID u = k)"

lemma cache_keyed_ops [cache_simps]:
  "cache_keyed newCache"
  "cache_keyed c \<Longrightarrow> cache_keyed (cache_set u c)"
  "cache_keyed c \<Longrightarrow> cache_keyed (cache_delete i c)"
  by (simp_all add: cache_keyed_def newCache_def cache_set_def cache_delete_def)

lemma map_dto_UserID_cache_values:
  assumes "iteration_ok it c" and "cache_keyed c"
  shows "map dto_UserID (cache_values it c) = it"
proof -
  have "\<forall>k\<in>set it. \<exists>u. c k = Some u \<and> dto_UserID u = k"
    using assms by (force simp: iteration_ok_def cache_keyed_def)
  then show ?thesis
    by (induction it) (auto simp: cache_values_def List.map_filter_simps)
qed

lemma distinct_cache_values:
  "\<lbrakk>iteration_ok it c; cache_keyed c\<rbrakk> \<Longrightarrow> distinct (map dto_UserID (cache_values it c))"
  by (simp add: map_dto_UserID_cache_values) (simp add: iteration_ok_def)

end
