(* ===== verification/User_Client.thy ===== *)
theory User_Client
  imports User_Cache
begin

text \<open>
  \<open>pkg/userclient/client.go\<close> and \<open>errors.go\<close>: the RPC client. The connection is an
  argument, a \<open>transport\<close>: what \<open>nc.RequestWithContext\<close> does to the world \<open>'w\<close>
  behind it and what it answers, the error text or the reply's data. A method yields a Go
  result \<open>(value, error)\<close> as a sum, or a panic: a reply with neither a user nor an error
  makes \<open>*resp.User\<close> a nil dereference.
\<close>

type_synonym 'w transport = "string \<Rightarrow> json \<Rightarrow> 'w \<Rightarrow> 'w \<times> (string + json option)"

datatype client_error =
    NotFoundError string
  | AlreadyExistsError string
  | ValidationError string
  | InternalError string
  | TransportError string string
  | DecodeError string

text \<open>
  \<open>err.Error()\<close>: the sentinel's text and the message that \<open>%w: %s\<close> joins. A decode error
  also carries \<open>encoding/json\<close>'s text, which is left out.
\<close>

fun client_error_text :: "client_error \<Rightarrow> string" where
  "client_error_text (NotFoundError m) = ''not found: '' @ m"
| "client_error_text (AlreadyExistsError m) = ''already exists: '' @ m"
| "client_error_text (ValidationError m) = ''validation error: '' @ m"
| "client_error_text (InternalError m) = ''internal error: '' @ m"
| "client_error_text (TransportError s m) = ''userclient: RPC request to '' @ s @ '' failed: '' @ m"
| "client_error_text (DecodeError s) = ''userclient: failed to unmarshal response from '' @ s"

definition mapRPCError :: "rpc_error \<Rightarrow> client_error" where
  "mapRPCError e =
     (if re_Code e = ErrCodeNotFound then NotFoundError (re_Message e)
      else if re_Code e = ErrCodeAlreadyExists then AlreadyExistsError (re_Message e)
      else if re_Code e = ErrCodeValidation then ValidationError (re_Message e)
      else InternalError (re_Message e))"

record client =
  cl_cache :: "cache option"
  cl_fullyLoaded :: bool

type_synonym 'a client_result = "(client_error + 'a) outcome"

definition defaultTimeout :: int where
  "defaultTimeout = 5 * 10 ^ 9"

definition defaultListLimit :: go_int32 where
  "defaultListLimit = 50"

text \<open>The time limit of every request, in nanoseconds: the configured one unless it is zero.\<close>

definition effective_timeout :: "int \<Rightarrow> int" where
  "effective_timeout configured = (if configured = 0 then defaultTimeout else configured)"

definition NewWithConn :: client where
  "NewWithConn = \<lparr>cl_cache = None, cl_fullyLoaded = False\<rparr>"

subsection \<open>One request\<close>

definition request ::
  "'w transport \<Rightarrow> string \<Rightarrow> json \<Rightarrow> 'a decoder \<Rightarrow> 'a \<Rightarrow> 'w \<Rightarrow> 'w \<times> (client_error + 'a)" where
  "request rpc subject payload d zero w =
     (case rpc subject payload w of
        (w', Inl err) \<Rightarrow> (w', Inl (TransportError subject err))
      | (w', Inr data) \<Rightarrow>
          (case unmarshal d zero data of
             None \<Rightarrow> (w', Inl (DecodeError subject))
           | Some out \<Rightarrow> (w', Inr out)))"

definition nil_dereference :: "'a outcome" where
  "nil_dereference = Panic ''invalid memory address or nil pointer dereference''"

abbreviation no_user_response :: user_response where
  "no_user_response \<equiv> \<lparr>resp_User = None, resp_Error = None\<rparr>"

abbreviation no_users_response :: users_response where
  "no_users_response \<equiv> \<lparr>resps_Users = None, resps_Error = None\<rparr>"

text \<open>What the methods that expect a user do with the decoded reply.\<close>

definition user_of :: "client_error + user_response \<Rightarrow> user_dto client_result" where
  "user_of r =
     (case r of
        Inl err \<Rightarrow> Return (Inl err)
      | Inr resp \<Rightarrow>
          (case resp_Error resp of
             Some e \<Rightarrow> Return (Inl (mapRPCError e))
           | None \<Rightarrow>
               (case resp_User resp of
                  Some u \<Rightarrow> Return (Inr u)
                | None \<Rightarrow> nil_dereference)))"

subsection \<open>Operations\<close>

definition client_CreateUser ::
  "'w transport \<Rightarrow> create_request \<Rightarrow> 'w \<Rightarrow> 'w \<times> user_dto client_result" where
  "client_CreateUser rpc req w =
     (case request rpc SubjectCreateUser (enc_create_request req) dec_user_response
             no_user_response w of
        (w', r) \<Rightarrow> (w', user_of r))"

definition client_UpdateUser ::
  "'w transport \<Rightarrow> update_request \<Rightarrow> 'w \<Rightarrow> 'w \<times> user_dto client_result" where
  "client_UpdateUser rpc req w =
     (case request rpc SubjectUpdateUser (enc_update_request req) dec_user_response
             no_user_response w of
        (w', r) \<Rightarrow> (w', user_of r))"

definition client_DeleteUser ::
  "'w transport \<Rightarrow> string \<Rightarrow> 'w \<Rightarrow> 'w \<times> unit client_result" where
  "client_DeleteUser rpc userID w =
     (case request rpc SubjectDeleteUser (enc_id_request \<lparr>ir_UserID = userID\<rparr>)
             dec_delete_response \<lparr>dresp_Error = None\<rparr> w of
        (w', Inl err) \<Rightarrow> (w', Return (Inl err))
      | (w', Inr resp) \<Rightarrow>
          (w', Return (case dresp_Error resp of
                         Some e \<Rightarrow> Inl (mapRPCError e)
                       | None \<Rightarrow> Inr ())))"

text \<open>After a lookup that missed: the user that came back goes into the cache, if there is one.\<close>

definition populate :: "client \<Rightarrow> user_dto \<Rightarrow> client" where
  "populate cl u =
     (case cl_cache cl of
        None \<Rightarrow> cl
      | Some c \<Rightarrow> cl\<lparr>cl_cache := Some (cache_set u c)\<rparr>)"

definition populate_result :: "client \<Rightarrow> user_dto client_result \<Rightarrow> client" where
  "populate_result cl r = (case r of Return (Inr u) \<Rightarrow> populate cl u | _ \<Rightarrow> cl)"

definition client_GetUserByID ::
  "'w transport \<Rightarrow> string \<Rightarrow> client \<Rightarrow> 'w \<Rightarrow> 'w \<times> client \<times> user_dto client_result" where
  "client_GetUserByID rpc userID cl w =
     (case Option.bind (cl_cache cl) (\<lambda>c. cache_get c userID) of
        Some u \<Rightarrow> (w, cl, Return (Inr u))
      | None \<Rightarrow>
          (case request rpc SubjectGetUserByID (enc_id_request \<lparr>ir_UserID = userID\<rparr>)
                  dec_user_response no_user_response w of
             (w', r) \<Rightarrow> (w', populate_result cl (user_of r), user_of r)))"

definition client_GetUserByEmail ::
  "'w transport \<Rightarrow> string list \<Rightarrow> string \<Rightarrow> client \<Rightarrow> 'w
     \<Rightarrow> 'w \<times> client \<times> user_dto client_result" where
  "client_GetUserByEmail rpc it email cl w =
     (case Option.bind (cl_cache cl) (\<lambda>c. cache_getByEmail it c email) of
        Some u \<Rightarrow> (w, cl, Return (Inr u))
      | None \<Rightarrow>
          (case request rpc SubjectGetUserByEmail (enc_email_request \<lparr>er_Email = email\<rparr>)
                  dec_user_response no_user_response w of
             (w', r) \<Rightarrow> (w', populate_result cl (user_of r), user_of r)))"

text \<open>
  \<open>ListUsers\<close> answers from the cache only when the startup load filled it. The result is a
  slice, \<open>None\<close> for nil.
\<close>

definition client_ListUsers ::
  "'w transport \<Rightarrow> string list \<Rightarrow> list_request \<Rightarrow> client \<Rightarrow> 'w
     \<Rightarrow> 'w \<times> user_dto list option client_result" where
  "client_ListUsers rpc it req0 cl w =
     (let req = (if lr_Limit req0 = 0 then req0\<lparr>lr_Limit := defaultListLimit\<rparr> else req0) in
      case (if cl_fullyLoaded cl then cl_cache cl else None) of
        Some c \<Rightarrow>
          (w, case cache_list it c (lr_Status req) (lr_Limit req) (lr_Offset req) of
                Panic m \<Rightarrow> Panic m
              | Return us \<Rightarrow> Return (Inr (Some us)))
      | None \<Rightarrow>
          (case request rpc SubjectListUsers (enc_list_request req) dec_users_response
                  no_users_response w of
             (w', Inl err) \<Rightarrow> (w', Return (Inl err))
           | (w', Inr resp) \<Rightarrow>
               (w', Return (case resps_Error resp of
                              Some e \<Rightarrow> Inl (mapRPCError e)
                            | None \<Rightarrow> Inr (resps_Users resp)))))"

subsection \<open>Startup\<close>

text \<open>
  \<open>loadCache\<close>: the payload is \<open>struct{}{}\<close>. A failure leaves the cache as it is and not
  fully loaded.
\<close>

definition loadCache :: "'w transport \<Rightarrow> client \<Rightarrow> 'w \<Rightarrow> 'w \<times> client" where
  "loadCache rpc cl w =
     (case request rpc SubjectListAllUsers (JObj []) dec_users_response no_users_response w of
        (w', Inl err) \<Rightarrow> (w', cl)
      | (w', Inr resp) \<Rightarrow>
          (case resps_Error resp of
             Some e \<Rightarrow> (w', cl)
           | None \<Rightarrow>
               (w', cl\<lparr>cl_cache := map_option
                          (fold cache_set (case resps_Users resp of None \<Rightarrow> [] | Some us \<Rightarrow> us))
                          (cl_cache cl),
                       cl_fullyLoaded := True\<rparr>)))"

text \<open>
  \<open>NewUserClient\<close> up to the event subscription, which \<open>Cache_Sync\<close> models:
  \<open>connect\<close> is the error text of \<open>nats.Connect\<close>, if any.
\<close>

definition NewUserClient ::
  "'w transport \<Rightarrow> string option \<Rightarrow> bool \<Rightarrow> 'w \<Rightarrow> 'w \<times> (string + client)" where
  "NewUserClient rpc connect cacheEnabled w =
     (case connect of
        Some err \<Rightarrow> (w, Inl (''userclient: failed to connect to NATS: '' @ err))
      | None \<Rightarrow>
          if cacheEnabled
          then (case loadCache rpc \<lparr>cl_cache = Some newCache, cl_fullyLoaded = False\<rparr> w of
                  (w', cl) \<Rightarrow> (w', Inr cl))
          else (w, Inr NewWithConn))"

subsection \<open>Lemmas\<close>

text \<open>A hit does not touch the world, whatever it holds.\<close>

lemma client_GetUserByID_hit [rpc_simps]:
  "\<lbrakk>cl_cache cl = Some c; c i = Some u\<rbrakk> \<Longrightarrow>
     client_GetUserByID rpc i cl w = (w, cl, Return (Inr u))"
  by (simp add: client_GetUserByID_def cache_get_def)

lemma client_GetUserByID_miss [rpc_simps]:
  "Option.bind (cl_cache cl) (\<lambda>c. c i) = None \<Longrightarrow>
     client_GetUserByID rpc i cl w =
       (case request rpc SubjectGetUserByID (enc_id_request \<lparr>ir_UserID = i\<rparr>)
               dec_user_response no_user_response w of
          (w', r) \<Rightarrow> (w', populate_result cl (user_of r), user_of r))"
  by (simp add: client_GetUserByID_def cache_get_def)

lemma request_reply [rpc_simps]:
  "rpc s p w = (w', Inr (Some j)) \<Longrightarrow>
     request rpc s p d z w = (w', case d j z of None \<Rightarrow> Inl (DecodeError s) | Some r \<Rightarrow> Inr r)"
  by (simp add: request_def unmarshal_simps split: option.split)

lemma user_of_simps [rpc_simps]:
  "user_of (Inl err) = Return (Inl err)"
  "user_of (Inr \<lparr>resp_User = u, resp_Error = Some e\<rparr>) = Return (Inl (mapRPCError e))"
  "user_of (Inr \<lparr>resp_User = Some v, resp_Error = None\<rparr>) = Return (Inr v)"
  by (simp_all add: user_of_def)

lemma user_of_panics_iff:
  "(\<exists>m. user_of r = Panic m) \<longleftrightarrow> r = Inr no_user_response"
  by (auto simp: user_of_def nil_dereference_def split: sum.splits option.splits)

end
