(* ===== verification/Validation.thy ===== *)
theory Validation
  imports Wire_Types
begin

text \<open>
  The \<open>validate\<close> tags of \<open>types.go\<close>, as data: for each request the list of its fields,
  their tags and their values. The validator itself (go-playground/validator) is not under
  \<open>src/\<close>: it is an argument of the handlers, a function from such a list to the error text,
  \<open>None\<close> when there is none. \<open>validator_documented\<close> states what its documentation says of
  the tags used here; the format checks behind \<open>email\<close> and \<open>uuid\<close> stay abstract.
\<close>

datatype vtag = Required | OmitEmpty | MaxTag int | MinTag int | Email | Uuid | OneOf "string list"

datatype vvalue = VStr string | VInt int | VNil | VPtr vvalue

record vfield =
  vf_Name :: string
  vf_Tags :: "vtag list"
  vf_Value :: vvalue

type_synonym validator = "vfield list \<Rightarrow> string option"

definition ptr_value :: "('a \<Rightarrow> vvalue) \<Rightarrow> 'a option \<Rightarrow> vvalue" where
  "ptr_value f p = (case p of None \<Rightarrow> VNil | Some v \<Rightarrow> VPtr (f v))"

definition int_value :: "'a::len word \<Rightarrow> vvalue" where
  "int_value w = VInt (sint w)"

definition statuses :: "string list" where
  "statuses = [''ACTIVE'', ''INACTIVE'', ''SUSPENDED'']"

subsection \<open>The tags of the requests\<close>

definition create_fields :: "create_request \<Rightarrow> vfield list" where
  "create_fields q =
     [\<lparr>vf_Name = ''FirstName'', vf_Tags = [Required, MaxTag 100], vf_Value = VStr (cr_FirstName q)\<rparr>,
      \<lparr>vf_Name = ''LastName'', vf_Tags = [Required, MaxTag 100], vf_Value = VStr (cr_LastName q)\<rparr>,
      \<lparr>vf_Name = ''Email'', vf_Tags = [Required, Email, MaxTag 255], vf_Value = VStr (cr_Email q)\<rparr>,
      \<lparr>vf_Name = ''Phone'', vf_Tags = [OmitEmpty, MaxTag 20], vf_Value = ptr_value VStr (cr_Phone q)\<rparr>,
      \<lparr>vf_Name = ''Age'', vf_Tags = [OmitEmpty, MinTag 0, MaxTag 150],
       vf_Value = ptr_value int_value (cr_Age q)\<rparr>,
      \<lparr>vf_Name = ''Status'', vf_Tags = [OmitEmpty, OneOf statuses], vf_Value = VStr (cr_Status q)\<rparr>]"

definition id_fields :: "id_request \<Rightarrow> vfield list" where
  "id_fields q =
     [\<lparr>vf_Name = ''UserID'', vf_Tags = [Required, Uuid], vf_Value = VStr (ir_UserID q)\<rparr>]"

definition email_fields :: "email_request \<Rightarrow> vfield list" where
  "email_fields q =
     [\<lparr>vf_Name = ''Email'', vf_Tags = [Required, Email], vf_Value = VStr (er_Email q)\<rparr>]"

definition list_fields :: "list_request \<Rightarrow> vfield list" where
  "list_fields q =
     [\<lparr>vf_Name = ''Status'', vf_Tags = [OmitEmpty, OneOf statuses],
       vf_Value = ptr_value VStr (lr_Status q)\<rparr>,
      \<lparr>vf_Name = ''Limit'', vf_Tags = [MinTag 1, MaxTag 1000], vf_Value = int_value (lr_Limit q)\<rparr>,
      \<lparr>vf_Name = ''Offset'', vf_Tags = [MinTag 0], vf_Value = int_value (lr_Offset q)\<rparr>]"

definition update_fields :: "update_request \<Rightarrow> vfield list" where
  "update_fields q =
     [\<lparr>vf_Name = ''UserID'', vf_Tags = [Required, Uuid], vf_Value = VStr (ur_UserID q)\<rparr>,
      \<lparr>vf_Name = ''FirstName'', vf_Tags = [Required, MaxTag 100], vf_Value = VStr (ur_FirstName q)\<rparr>,
      \<lparr>vf_Name = ''LastName'', vf_Tags = [Required, MaxTag 100], vf_Value = VStr (ur_LastName q)\<rparr>,
      \<lparr>vf_Name = ''Email'', vf_Tags = [Required, Email, MaxTag 255], vf_Value = VStr (ur_Email q)\<rparr>,
      \<lparr>vf_Name = ''Phone'', vf_Tags = [OmitEmpty, MaxTag 20], vf_Value = ptr_value VStr (ur_Phone q)\<rparr>,
      \<lparr>vf_Name = ''Age'', vf_Tags = [OmitEmpty, MinTag 0, MaxTag 150],
       vf_Value = ptr_value int_value (ur_Age q)\<rparr>,
      \<lparr>vf_Name = ''Status'', vf_Tags = [Required, OneOf statuses], vf_Value = VStr (ur_Status q)\<rparr>]"

subsection \<open>What the documentation says of the tags\<close>

text \<open>
  \<open>required\<close> refuses the zero value and a nil pointer, \<open>max\<close> and \<open>min\<close> bound a number or
  a string's rune count, \<open>oneof\<close> lists the values, \<open>omitempty\<close> skips the other tags for a
  nil pointer and for the zero value of a field that is no pointer. A pointer is checked
  through to its target.
\<close>

fun is_zero :: "vvalue \<Rightarrow> bool" where
  "is_zero (VStr s) = (s = [])"
| "is_zero (VInt i) = (i = 0)"
| "is_zero VNil = True"
| "is_zero (VPtr v) = False"

fun tag_ok :: "(string \<Rightarrow> bool) \<Rightarrow> (string \<Rightarrow> bool) \<Rightarrow> vtag \<Rightarrow> vvalue \<Rightarrow> bool" where
  "tag_ok is_email is_uuid OmitEmpty v = True"
| "tag_ok is_email is_uuid Required v = (\<not> is_zero v)"
| "tag_ok is_email is_uuid t VNil = False"
| "tag_ok is_email is_uuid t (VPtr v) = tag_ok is_email is_uuid t v"
| "tag_ok is_email is_uuid (MaxTag n) (VStr s) = (int (rune_count s) \<le> n)"
| "tag_ok is_email is_uuid (MaxTag n) (VInt i) = (i \<le> n)"
| "tag_ok is_email is_uuid (MinTag n) (VStr s) = (n \<le> int (rune_count s))"
| "tag_ok is_email is_uuid (MinTag n) (VInt i) = (n \<le> i)"
| "tag_ok is_email is_uuid Email (VStr s) = is_email s"
| "tag_ok is_email is_uuid Uuid (VStr s) = is_uuid s"
| "tag_ok is_email is_uuid (OneOf xs) (VStr s) = (s \<in> set xs)"
| "tag_ok is_email is_uuid t v = False"

definition field_ok :: "(string \<Rightarrow> bool) \<Rightarrow> (string \<Rightarrow> bool) \<Rightarrow> vfield \<Rightarrow> bool" where
  "field_ok is_email is_uuid f \<longleftrightarrow>
     OmitEmpty \<in> set (vf_Tags f) \<and> is_zero (vf_Value f)
     \<or> (\<forall>t\<in>set (vf_Tags f). tag_ok is_email is_uuid t (vf_Value f))"

definition validator_documented ::
  "validator \<Rightarrow> (string \<Rightarrow> bool) \<Rightarrow> (string \<Rightarrow> bool) \<Rightarrow> bool" where
  "validator_documented vld is_email is_uuid \<longleftrightarrow>
     (\<forall>fs. vld fs = None \<longleftrightarrow> (\<forall>f\<in>set fs. field_ok is_email is_uuid f))"

text \<open>A validator that meets the documentation, for concrete inputs.\<close>

definition plain_validator :: "(string \<Rightarrow> bool) \<Rightarrow> (string \<Rightarrow> bool) \<Rightarrow> validator" where
  "plain_validator is_email is_uuid fs =
     (if list_all (field_ok is_email is_uuid) fs then None else Some ''validation failed'')"

lemma plain_validator_documented:
  "validator_documented (plain_validator is_email is_uuid) is_email is_uuid"
  by (simp add: validator_documented_def plain_validator_def list_all_iff)

subsection \<open>What a validated request satisfies\<close>

lemmas field_ok_simps = field_ok_def ptr_value_def int_value_def

lemma create_fields_ok:
  assumes "validator_documented vld is_email is_uuid" and "vld (create_fields q) = None"
  shows "cr_FirstName q \<noteq> [] \<and> rune_count (cr_FirstName q) \<le> 100
    \<and> cr_LastName q \<noteq> [] \<and> rune_count (cr_LastName q) \<le> 100
    \<and> is_email (cr_Email q) \<and> cr_Email q \<noteq> [] \<and> rune_count (cr_Email q) \<le> 255
    \<and> pred_option (\<lambda>p. rune_count p \<le> 20) (cr_Phone q)
    \<and> pred_option (\<lambda>a. 0 \<le> sint a \<and> sint a \<le> 150) (cr_Age q)
    \<and> (cr_Status q = [] \<or> cr_Status q \<in> set statuses)"
proof -
  have "\<forall>f\<in>set (create_fields q). field_ok is_email is_uuid f"
    using assms by (simp add: validator_documented_def)
  then show ?thesis
    by (cases "cr_Phone q"; cases "cr_Age q") (auto simp: create_fields_def field_ok_simps)
qed

lemma update_fields_ok:
  assumes "validator_documented vld is_email is_uuid" and "vld (update_fields q) = None"
  shows "is_uuid (ur_UserID q)
    \<and> ur_FirstName q \<noteq> [] \<and> rune_count (ur_FirstName q) \<le> 100
    \<and> ur_LastName q \<noteq> [] \<and> rune_count (ur_LastName q) \<le> 100
    \<and> is_email (ur_Email q) \<and> ur_Email q \<noteq> [] \<and> rune_count (ur_Email q) \<le> 255
    \<and> pred_option (\<lambda>p. rune_count p \<le> 20) (ur_Phone q)
    \<and> pred_option (\<lambda>a. 0 \<le> sint a \<and> sint a \<le> 150) (ur_Age q)
    \<and> ur_Status q \<in> set statuses"
proof -
  have "\<forall>f\<in>set (update_fields q). field_ok is_email is_uuid f"
    using assms by (simp add: validator_documented_def)
  then show ?thesis
    by (cases "ur_Phone q"; cases "ur_Age q") (auto simp: update_fields_def field_ok_simps)
qed

lemma list_fields_ok:
  assumes "validator_documented vld is_email is_uuid" and "vld (list_fields q) = None"
  shows "pred_option (\<lambda>s. s \<in> set statuses) (lr_Status q)
    \<and> 1 \<le> sint (lr_Limit q) \<and> sint (lr_Limit q) \<le> 1000 \<and> 0 \<le> sint (lr_Offset q)"
proof -
  have "\<forall>f\<in>set (list_fields q). field_ok is_email is_uuid f"
    using assms by (simp add: validator_documented_def)
  then show ?thesis
    by (cases "lr_Status q") (auto simp: list_fields_def field_ok_simps)
qed

lemma id_fields_ok:
  assumes "validator_documented vld is_email is_uuid" and "vld (id_fields q) = None"
  shows "is_uuid (ir_UserID q)"
  using assms by (auto simp: validator_documented_def id_fields_def field_ok_simps)

lemma email_fields_ok:
  assumes "validator_documented vld is_email is_uuid" and "vld (email_fields q) = None"
  shows "is_email (er_Email q)"
  using assms by (auto simp: validator_documented_def email_fields_def field_ok_simps)

end
