(* ===== verification/Gateway_Core.thy ===== *)
theory Gateway_Core
  imports User_Client Validation
begin

text \<open>
  The gateway's own data and the two ports its handlers use (\<open>gateway-service/internal\<close>:
  \<open>dto/user.go\<close>, \<open>ports\<close>, \<open>app/user_service.go\<close>,
  \<open>adapters/userclientadapter/adapter.go\<close>). A port is a record of methods; \<open>'c\<close> stands
  for what a call's context and the world decide, \<open>'s\<close> for the state behind the port, for
  the adapter the RPC client with its cache and the world behind the connection. A method
  yields a Go result or panics, and an error is one of the client's.
\<close>

subsection \<open>Transfer objects\<close>

record g_create_request =
  gc_FirstName :: string
  gc_LastName :: string
  gc_Email :: string
  gc_Phone :: "string option"
  gc_Age :: "go_int option"
  gc_Status :: string

record g_update_request =
  gu_FirstName :: string
  gu_LastName :: string
  gu_Email :: string
  gu_Phone :: "string option"
  gu_Age :: "go_int option"
  gu_Status :: string

record g_list_request =
  gl_Status :: "string option"
  gl_Limit :: go_int32
  gl_Offset :: go_int32

record g_user =
  gr_UserID :: string
  gr_FirstName :: string
  gr_LastName :: string
  gr_Email :: string
  gr_Phone :: "string option"
  gr_Age :: "go_int option"
  gr_Status :: string
  gr_CreatedAt :: string
  gr_UpdatedAt :: string

record error_detail =
  ed_Code :: string
  ed_Message :: string

definition zero_g_create :: g_create_request where
  "zero_g_create = \<lparr>gc_FirstName = '''', gc_LastName = '''', gc_Email = '''', gc_Phone = None,
     gc_Age = None, gc_Status = ''''\<rparr>"

definition zero_g_update :: g_update_request where
  "zero_g_update = \<lparr>gu_FirstName = '''', gu_LastName = '''', gu_Email = '''', gu_Phone = None,
     gu_Age = None, gu_Status = ''''\<rparr>"

definition dec_g_create :: "g_create_request decoder" where
  "dec_g_create = dec_struct
     [(''first_name'', field gc_FirstName (\<lambda>v. gc_FirstName_update (\<lambda>_. v)) dec_string),
      (''last_name'', field gc_LastName (\<lambda>v. gc_LastName_update (\<lambda>_. v)) dec_string),
      (''email'', field gc_Email (\<lambda>v. gc_Email_update (\<lambda>_. v)) dec_string),
      (''phone'', field gc_Phone (\<lambda>v. gc_Phone_update (\<lambda>_. v)) (dec_ptr dec_string '''')),
      (''age'', field gc_Age (\<lambda>v. gc_Age_update (\<lambda>_. v)) (dec_ptr dec_int64 0)),
      (''status'', field gc_Status (\<lambda>v. gc_Status_update (\<lambda>_. v)) dec_string)]"

definition g_update_fields :: "g_update_request fields" where
  "g_update_fields =
     [(''first_name'', field gu_FirstName (\<lambda>v. gu_FirstName_update (\<lambda>_. v)) dec_string),
      (''last_name'', field gu_LastName (\<lambda>v. gu_LastName_update (\<lambda>_. v)) dec_string),
      (''email'', field gu_Email (\<lambda>v. gu_Email_update (\<lambda>_. v)) dec_string),
      (''phone'', field gu_Phone (\<lambda>v. gu_Phone_update (\<lambda>_. v)) (dec_ptr dec_string '''')),
      (''age'', field gu_Age (\<lambda>v. gu_Age_update (\<lambda>_. v)) (dec_ptr dec_int64 0)),
      (''status'', field gu_Status (\<lambda>v. gu_Status_update (\<lambda>_. v)) dec_string)]"

definition dec_g_update :: "g_update_request decoder" where
  "dec_g_update = dec_struct g_update_fields"

text \<open>\<open>ListUsersRequest\<close> has no JSON tags: the members are named like the Go fields.\<close>

definition dec_g_list :: "g_list_request decoder" where
  "dec_g_list = dec_struct
     [(''Status'', field gl_Status (\<lambda>v. gl_Status_update (\<lambda>_. v)) (dec_ptr dec_string '''')),
      (''Limit'', field gl_Limit (\<lambda>v. gl_Limit_update (\<lambda>_. v)) dec_int32),
      (''Offset'', field gl_Offset (\<lambda>v. gl_Offset_update (\<lambda>_. v)) dec_int32)]"

definition enc_g_user :: "g_user \<Rightarrow> json" where
  "enc_g_user u = obj
     [(''user_id'', Some (JStr (gr_UserID u))),
      (''first_name'', Some (JStr (gr_FirstName u))),
      (''last_name'', Some (JStr (gr_LastName u))),
      (''email'', Some (JStr (gr_Email u))),
      (''phone'', map_option JStr (gr_Phone u)),
      (''age'', map_option enc_int (gr_Age u)),
      (''status'', Some (JStr (gr_Status u))),
      (''created_at'', Some (JStr (gr_CreatedAt u))),
      (''updated_at'', Some (JStr (gr_UpdatedAt u)))]"

definition enc_error_response :: "error_detail \<Rightarrow> json" where
  "enc_error_response e = obj
     [(''error'', Some (obj [(''code'', Some (JStr (ed_Code e))),
                             (''message'', Some (JStr (ed_Message e)))]))]"

subsection \<open>Validate tags\<close>

definition g_create_vfields :: "g_create_request \<Rightarrow> vfield list" where
  "g_create_vfields q =
     [\<lparr>vf_Name = ''FirstName'', vf_Tags = [Required, MaxTag 100], vf_Value = VStr (gc_FirstName q)\<rparr>,
      \<lparr>vf_Name = ''LastName'', vf_Tags = [Required, MaxTag 100], vf_Value = VStr (gc_LastName q)\<rparr>,
      \<lparr>vf_Name = ''Email'', vf_Tags = [Required, Email, MaxTag 255], vf_Value = VStr (gc_Email q)\<rparr>,
      \<lparr>vf_Name = ''Phone'', vf_Tags = [OmitEmpty, MaxTag 20], vf_Value = ptr_value VStr (gc_Phone q)\<rparr>,
      \<lparr>vf_Name = ''Age'', vf_Tags = [OmitEmpty, MinTag 0, MaxTag 150],
       vf_Value = ptr_value int_value (gc_Age q)\<rparr>,
      \<lparr>vf_Name = ''Status'', vf_Tags = [OmitEmpty, OneOf statuses], vf_Value = VStr (gc_Status q)\<rparr>]"

definition g_update_vfields :: "g_update_request \<Rightarrow> vfield list" where
  "g_update_vfields q =
     [\<lparr>vf_Name = ''FirstName'', vf_Tags = [Required, MaxTag 100], vf_Value = VStr (gu_FirstName q)\<rparr>,
      \<lparr>vf_Name = ''LastName'', vf_Tags = [Required, MaxTag 100], vf_Value = VStr (gu_LastName q)\<rparr>,
      \<lparr>vf_Name = ''Email'', vf_Tags = [Required, Email, MaxTag 255], vf_Value = VStr (gu_Email q)\<rparr>,
      \<lparr>vf_Name = ''Phone'', vf_Tags = [OmitEmpty, MaxTag 20], vf_Value = ptr_value VStr (gu_Phone q)\<rparr>,
      \<lparr>vf_Name = ''Age'', vf_Tags = [OmitEmpty, MinTag 0, MaxTag 150],
       vf_Value = ptr_value int_value (gu_Age q)\<rparr>,
      \<lparr>vf_Name = ''Status'', vf_Tags = [Required, OneOf statuses], vf_Value = VStr (gu_Status q)\<rparr>]"

definition g_list_vfields :: "g_list_request \<Rightarrow> vfield list" where
  "g_list_vfields q =
     [\<lparr>vf_Name = ''Status'', vf_Tags = [OmitEmpty, OneOf statuses],
       vf_Value = ptr_value VStr (gl_Status q)\<rparr>,
      \<lparr>vf_Name = ''Limit'', vf_Tags = [MinTag 1, MaxTag 1000], vf_Value = int_value (gl_Limit q)\<rparr>,
      \<lparr>vf_Name = ''Offset'', vf_Tags = [MinTag 0], vf_Value = int_value (gl_Offset q)\<rparr>]"

subsection \<open>Ports and application\<close>

text \<open>
  The six methods that \<open>ports.UserService\<close> and \<open>ports.UserClient\<close> share;
  \<open>Subscribe\<close> of the latter is modelled with the WebSocket events.
\<close>

record ('c, 's) user_port =
  up_CreateUser :: "'c \<Rightarrow> g_create_request \<Rightarrow> 's \<Rightarrow> 's \<times> g_user client_result"
  up_GetUserByID :: "'c \<Rightarrow> string \<Rightarrow> 's \<Rightarrow> 's \<times> g_user client_result"
  up_GetUserByEmail :: "'c \<Rightarrow> string \<Rightarrow> 's \<Rightarrow> 's \<times> g_user client_result"
  up_ListUsers :: "'c \<Rightarrow> g_list_request \<Rightarrow> 's \<Rightarrow> 's \<times> g_user list client_result"
  up_UpdateUser :: "'c \<Rightarrow> string \<Rightarrow> g_update_request \<Rightarrow> 's \<Rightarrow> 's \<times> g_user client_result"
  up_DeleteUser :: "'c \<Rightarrow> string \<Rightarrow> 's \<Rightarrow> 's \<times> unit client_result"

text \<open>\<open>app.UserService\<close> hands every call to the client port.\<close>

definition NewApp :: "('c, 's) user_port \<Rightarrow> ('c, 's) user_port" where
  "NewApp client =
     \<lparr>up_CreateUser = (\<lambda>c req. up_CreateUser client c req),
      up_GetUserByID = (\<lambda>c i. up_GetUserByID client c i),
      up_GetUserByEmail = (\<lambda>c em. up_GetUserByEmail client c em),
      up_ListUsers = (\<lambda>c req. up_ListUsers client c req),
      up_UpdateUser = (\<lambda>c i req. up_UpdateUser client c i req),
      up_DeleteUser = (\<lambda>c i. up_DeleteUser client c i)\<rparr>"

subsection \<open>The adapter\<close>

text \<open>
  A call's connection and the order Go picks for iterating over the cache.
\<close>

record ('c, 'w) client_env =
  ce_rpc :: "'c \<Rightarrow> 'w transport"
  ce_iteration :: "'c \<Rightarrow> string list"

type_synonym 'w client_state = "client \<times> 'w"

definition toUserResponse :: "user_dto \<Rightarrow> g_user" where
  "toUserResponse u =
     \<lparr>gr_UserID = dto_UserID u, gr_FirstName = dto_FirstName u, gr_LastName = dto_LastName u,
      gr_Email = dto_Email u, gr_Phone = dto_Phone u, gr_Age = dto_Age u,
      gr_Status = dto_Status u, gr_CreatedAt = dto_CreatedAt u, gr_UpdatedAt = dto_UpdatedAt u\<rparr>"

fun map_result :: "('a \<Rightarrow> 'b) \<Rightarrow> 'a client_result \<Rightarrow> 'b client_result" where
  "map_result f (Panic m) = Panic m"
| "map_result f (Return (Inl err)) = Return (Inl err)"
| "map_result f (Return (Inr x)) = Return (Inr (f x))"

definition adapter_create_request :: "g_create_request \<Rightarrow> create_request" where
  "adapter_create_request req =
     \<lparr>cr_FirstName = gc_FirstName req, cr_LastName = gc_LastName req, cr_Email = gc_Email req,
      cr_Phone = gc_Phone req, cr_Age = gc_Age req, cr_Status = gc_Status req\<rparr>"

definition adapter_update_request :: "string \<Rightarrow> g_update_request \<Rightarrow> update_request" where
  "adapter_update_request i req =
     \<lparr>ur_UserID = i, ur_FirstName = gu_FirstName req, ur_LastName = gu_LastName req,
      ur_Email = gu_Email req, ur_Phone = gu_Phone req, ur_Age = gu_Age req,
      ur_Status = gu_Status req\<rparr>"

definition adapter_list_request :: "g_list_request \<Rightarrow> list_request" where
  "adapter_list_request req =
     \<lparr>lr_Status = gl_Status req, lr_Limit = gl_Limit req, lr_Offset = gl_Offset req\<rparr>"

definition adapter_CreateUser where
  "adapter_CreateUser ce c req s =
     (case client_CreateUser (ce_rpc ce c) (adapter_create_request req) (snd s) of
        (w', r) \<Rightarrow> ((fst s, w'), map_result toUserResponse r))"

definition adapter_GetUserByID where
  "adapter_GetUserByID ce c i s =
     (case client_GetUserByID (ce_rpc ce c) i (fst s) (snd s) of
        (w', cl', r) \<Rightarrow> ((cl', w'), map_result toUserResponse r))"

definition adapter_GetUserByEmail where
  "adapter_GetUserByEmail ce c em s =
     (case client_GetUserByEmail (ce_rpc ce c) (ce_iteration ce c) em (fst s) (snd s) of
        (w', cl', r) \<Rightarrow> ((cl', w'), map_result toUserResponse r))"

text \<open>A nil slice of users becomes an empty one.\<close>

definition adapter_ListUsers where
  "adapter_ListUsers ce c req s =
     (case client_ListUsers (ce_rpc ce c) (ce_iteration ce c) (adapter_list_request req) (fst s)
             (snd s) of
        (w', r) \<Rightarrow> ((fst s, w'),
          map_result (\<lambda>us. map toUserResponse (case us of None \<Rightarrow> [] | Some xs \<Rightarrow> xs)) r))"

definition adapter_UpdateUser where
  "adapter_UpdateUser ce c i req s =
     (case client_UpdateUser (ce_rpc ce c) (adapter_update_request i req) (snd s) of
        (w', r) \<Rightarrow> ((fst s, w'), map_result toUserResponse r))"

definition adapter_DeleteUser where
  "adapter_DeleteUser ce c i s =
     (case client_DeleteUser (ce_rpc ce c) i (snd s) of
        (w', r) \<Rightarrow> ((fst s, w'), r))"

definition NewUserClientAdapter :: "('c, 'w) client_env \<Rightarrow> ('c, 'w client_state) user_port" where
  "NewUserClientAdapter ce =
     \<lparr>up_CreateUser = adapter_CreateUser ce,
      up_GetUserByID = adapter_GetUserByID ce,
      up_GetUserByEmail = adapter_GetUserByEmail ce,
      up_ListUsers = adapter_ListUsers ce,
      up_UpdateUser = adapter_UpdateUser ce,
      up_DeleteUser = adapter_DeleteUser ce\<rparr>"

lemma NewApp_passes_on [rpc_simps]: "NewApp client = client"
  by (cases client) (simp add: NewApp_def)

lemma NewUserClientAdapter_simps [rpc_simps]:
  "up_CreateUser (NewUserClientAdapter ce) = adapter_CreateUser ce"
  "up_GetUserByID (NewUserClientAdapter ce) = adapter_GetUserByID ce"
  "up_GetUserByEmail (NewUserClientAdapter ce) = adapter_GetUserByEmail ce"
  "up_ListUsers (NewUserClientAdapter ce) = adapter_ListUsers ce"
  "up_UpdateUser (NewUserClientAdapter ce) = adapter_UpdateUser ce"
  "up_DeleteUser (NewUserClientAdapter ce) = adapter_DeleteUser ce"
  by (simp_all add: NewUserClientAdapter_def)

text \<open>The gateway renames the users of the service and prints them the same.\<close>

lemma enc_toUserResponse [wire_simps]: "enc_g_user (toUserResponse u) = enc_dto u"
  by (simp add: enc_g_user_def toUserResponse_def enc_dto_def)

lemma g_vfields_adapter [rpc_simps]:
  "create_fields (adapter_create_request q) = g_create_vfields q"
  "list_fields (adapter_list_request l) = g_list_vfields l"
  "update_fields (adapter_update_request i u) =
     \<lparr>vf_Name = ''UserID'', vf_Tags = [Required, Uuid], vf_Value = VStr i\<rparr> # g_update_vfields u"
  by (simp_all add: create_fields_def g_create_vfields_def adapter_create_request_def
      list_fields_def g_list_vfields_def adapter_list_request_def update_fields_def
      g_update_vfields_def adapter_update_request_def)

lemma map_result_Panic [simp]: "map_result f r = Panic m \<longleftrightarrow> r = Panic m"
  by (cases "(f, r)" rule: map_result.cases) auto

end
