(* ===== verification/Http_Handler.thy ===== *)
theory Http_Handler
  imports Gateway_Core
begin

text \<open>
  \<open>gateway-service/internal/adapters/httphandler\<close>. A handler gets what net/http and the chi router (neither under
  \<open>src/\<close>) hand it: the URL parameters, the first value of each query parameter, and the
  first JSON value of the body, \<open>None\<close> when there is none. It yields the response, or the
  panic of the service call it made.
\<close>

record http_request =
  hr_param :: "string \<Rightarrow> string"
  hr_query :: "string \<Rightarrow> string"
  hr_body :: "json option"

record http_response =
  rs_status :: nat
  rs_content_type :: "string option"
  rs_body :: "json option"

record ('c, 's) http_handler =
  hh_service :: "('c, 's) user_port"
  hh_validate :: validator

definition NewHttpHandler :: "validator \<Rightarrow> ('c, 's) user_port \<Rightarrow> ('c, 's) http_handler" where
  "NewHttpHandler vld service = \<lparr>hh_service = service, hh_validate = vld\<rparr>"

definition StatusOK :: nat where "StatusOK = 200"
definition StatusCreated :: nat where "StatusCreated = 201"
definition StatusNoContent :: nat where "StatusNoContent = 204"
definition StatusBadRequest :: nat where "StatusBadRequest = 400"
definition StatusNotFound :: nat where "StatusNotFound = 404"
definition StatusConflict :: nat where "StatusConflict = 409"
definition StatusInternalServerError :: nat where "StatusInternalServerError = 500"

lemmas http_status_defs = StatusOK_def StatusCreated_def StatusNoContent_def StatusBadRequest_def
  StatusNotFound_def StatusConflict_def StatusInternalServerError_def

subsection \<open>Helpers\<close>

definition writeJSON :: "nat \<Rightarrow> json \<Rightarrow> http_response" where
  "writeJSON status body =
     \<lparr>rs_status = status, rs_content_type = Some ''application/json'', rs_body = Some body\<rparr>"

definition http_errorResponse :: "string \<Rightarrow> string \<Rightarrow> json" where
  "http_errorResponse code message = enc_error_response \<lparr>ed_Code = code, ed_Message = message\<rparr>"

fun mapClientError :: "client_error \<Rightarrow> nat \<times> json" where
  "mapClientError (NotFoundError m) =
     (StatusNotFound, http_errorResponse ''NOT_FOUND'' (client_error_text (NotFoundError m)))"
| "mapClientError (AlreadyExistsError m) =
     (StatusConflict,
      http_errorResponse ''ALREADY_EXISTS'' (client_error_text (AlreadyExistsError m)))"
| "mapClientError (ValidationError m) =
     (StatusBadRequest,
      http_errorResponse ''VALIDATION_ERROR'' (client_error_text (ValidationError m)))"
| "mapClientError _ =
     (StatusInternalServerError,
      http_errorResponse ''INTERNAL_ERROR'' ''an internal error occurred'')"

definition bad_request :: "string \<Rightarrow> http_response" where
  "bad_request message = writeJSON StatusBadRequest (http_errorResponse ''BAD_REQUEST'' message)"

definition validation_failed :: "string \<Rightarrow> http_response" where
  "validation_failed message =
     writeJSON StatusBadRequest (http_errorResponse ''VALIDATION_ERROR'' message)"

text \<open>\<open>validate.Var(v, "required,uuid")\<close> and \<open>validate.Var(v, "required,email")\<close>.\<close>

definition var_uuid :: "string \<Rightarrow> vfield list" where
  "var_uuid v = [\<lparr>vf_Name = '''', vf_Tags = [Required, Uuid], vf_Value = VStr v\<rparr>]"

definition var_email :: "string \<Rightarrow> vfield list" where
  "var_email v = [\<lparr>vf_Name = '''', vf_Tags = [Required, Email], vf_Value = VStr v\<rparr>]"

text \<open>What follows a call of the service: an error's response, or \<open>f\<close> of the result.\<close>

definition respond ::
  "('a \<Rightarrow> http_response) \<Rightarrow> 's \<times> 'a client_result \<Rightarrow> 's \<times> http_response outcome" where
  "respond f r =
     (case r of
        (s, Panic m) \<Rightarrow> (s, Panic m)
      | (s, Return (Inl err)) \<Rightarrow>
          (s, Return (case mapClientError err of (status, body) \<Rightarrow> writeJSON status body))
      | (s, Return (Inr x)) \<Rightarrow> (s, Return (f x)))"

subsection \<open>Parsing\<close>

definition is_digit :: "char \<Rightarrow> bool" where
  "is_digit ch \<longleftrightarrow> 48 \<le> (of_char ch :: nat) \<and> (of_char ch :: nat) \<le> 57"

definition digits_value :: "string \<Rightarrow> int" where
  "digits_value ds = foldl (\<lambda>acc ch. acc * 10 + (int (of_char ch) - 48)) 0 ds"

text \<open>\<open>strconv.ParseInt(s, 10, n)\<close>: a sign, then decimal digits, and a value that fits.\<close>

definition ParseInt :: "nat \<Rightarrow> string \<Rightarrow> int option" where
  "ParseInt n s =
     (let (neg, ds) = (case s of
            [] \<Rightarrow> (False, [])
          | ch # cs \<Rightarrow> if ch = CHR ''+'' then (False, cs)
                       else if ch = CHR ''-'' then (True, cs) else (False, s));
          v = (if neg then - digits_value ds else digits_value ds)
      in if ds \<noteq> [] \<and> list_all is_digit ds \<and> fits_signed n v then Some v else None)"

definition defaultLimit :: go_int32 where
  "defaultLimit = 20"

definition parseListRequest ::
  "('c, 's) http_handler \<Rightarrow> http_request \<Rightarrow> http_response + g_list_request" where
  "parseListRequest h r =
     (let status = (if hr_query r ''status'' \<noteq> [] then Some (hr_query r ''status'') else None);
          l = hr_query r ''limit''; off = hr_query r ''offset'' in
      case (if l = [] then Some defaultLimit
            else case ParseInt 32 l of
              None \<Rightarrow> None
            | Some v \<Rightarrow> if v < 1 then None else Some (word_of_int v)) of
        None \<Rightarrow> Inl (bad_request ''limit must be a positive integer'')
      | Some limit \<Rightarrow>
     (case (if off = [] then Some 0
            else case ParseInt 32 off of
              None \<Rightarrow> None
            | Some v \<Rightarrow> if v < 0 then None else Some (word_of_int v)) of
        None \<Rightarrow> Inl (bad_request ''offset must be a non-negative integer'')
      | Some offset \<Rightarrow>
     (let req = \<lparr>gl_Status = status, gl_Limit = limit, gl_Offset = offset\<rparr> in
      case hh_validate h (g_list_vfields req) of
        Some msg \<Rightarrow> Inl (validation_failed msg)
      | None \<Rightarrow> Inr req)))"

subsection \<open>Handlers\<close>

type_synonym ('c, 's) http_action =
  "('c, 's) http_handler \<Rightarrow> 'c \<Rightarrow> http_request \<Rightarrow> 's \<Rightarrow> 's \<times> http_response outcome"

definition http_handleHealth :: "('c, 's) http_action" where
  "http_handleHealth h c r s =
     (s, Return (writeJSON StatusOK (JObj [(''status'', JStr ''ok'')])))"

definition http_handleCreate :: "('c, 's) http_action" where
  "http_handleCreate h c r s =
     (case unmarshal dec_g_create zero_g_create (hr_body r) of
        None \<Rightarrow> (s, Return (bad_request ''invalid JSON body''))
      | Some req \<Rightarrow>
     (case hh_validate h (g_create_vfields req) of
        Some msg \<Rightarrow> (s, Return (validation_failed msg))
      | None \<Rightarrow>
          respond (\<lambda>u. writeJSON StatusCreated (enc_g_user u))
            (up_CreateUser (hh_service h) c req s)))"

definition http_handleList :: "('c, 's) http_action" where
  "http_handleList h c r s =
     (case parseListRequest h r of
        Inl resp \<Rightarrow> (s, Return resp)
      | Inr req \<Rightarrow>
          respond (\<lambda>us. writeJSON StatusOK (JArr (map enc_g_user us)))
            (up_ListUsers (hh_service h) c req s))"

definition invalid_uuid :: http_response where
  "invalid_uuid = bad_request ''invalid user id: must be a valid UUID''"

definition http_handleGetByID :: "('c, 's) http_action" where
  "http_handleGetByID h c r s =
     (let i = hr_param r ''id'' in
      case hh_validate h (var_uuid i) of
        Some msg \<Rightarrow> (s, Return invalid_uuid)
      | None \<Rightarrow>
          respond (\<lambda>u. writeJSON StatusOK (enc_g_user u)) (up_GetUserByID (hh_service h) c i s))"

definition http_handleGetByEmail :: "('c, 's) http_action" where
  "http_handleGetByEmail h c r s =
     (let em = hr_param r ''email'' in
      case hh_validate h (var_email em) of
        Some msg \<Rightarrow> (s, Return (bad_request ''invalid email format''))
      | None \<Rightarrow>
          respond (\<lambda>u. writeJSON StatusOK (enc_g_user u))
            (up_GetUserByEmail (hh_service h) c em s))"

definition http_handleUpdate :: "('c, 's) http_action" where
  "http_handleUpdate h c r s =
     (let i = hr_param r ''id'' in
      case hh_validate h (var_uuid i) of
        Some msg \<Rightarrow> (s, Return invalid_uuid)
      | None \<Rightarrow>
     (case unmarshal dec_g_update zero_g_update (hr_body r) of
        None \<Rightarrow> (s, Return (bad_request ''invalid JSON body''))
      | Some req \<Rightarrow>
     (case hh_validate h (g_update_vfields req) of
        Some msg \<Rightarrow> (s, Return (validation_failed msg))
      | None \<Rightarrow>
          respond (\<lambda>u. writeJSON StatusOK (enc_g_user u))
            (up_UpdateUser (hh_service h) c i req s))))"

definition http_handleDelete :: "('c, 's) http_action" where
  "http_handleDelete h c r s =
     (let i = hr_param r ''id'' in
      case hh_validate h (var_uuid i) of
        Some msg \<Rightarrow> (s, Return invalid_uuid)
      | None \<Rightarrow>
          respond (\<lambda>_. \<lparr>rs_status = StatusNoContent, rs_content_type = None, rs_body = None\<rparr>)
            (up_DeleteUser (hh_service h) c i s))"

subsection \<open>Routes\<close>

definition PathHealth :: string where "PathHealth = ''/api/v1/health''"
definition PathUsers :: string where "PathUsers = ''/api/v1/users''"
definition PathUserByID :: string where "PathUserByID = ''/api/v1/users/{id}''"
definition PathUserByEmail :: string where "PathUserByEmail = ''/api/v1/users/email/{email}''"

lemmas path_defs = PathHealth_def PathUsers_def PathUserByID_def PathUserByEmail_def

text \<open>The methods and patterns given to the router; matching a URL is the router's.\<close>

definition RegisterRoutes :: "((string \<times> string) \<times> ('c, 's) http_action) list" where
  "RegisterRoutes =
     [((''GET'', PathHealth), http_handleHealth),
      ((''POST'', PathUsers), http_handleCreate),
      ((''GET'', PathUsers), http_handleList),
      ((''GET'', PathUserByEmail), http_handleGetByEmail),
      ((''GET'', PathUserByID), http_handleGetByID),
      ((''PUT'', PathUserByID), http_handleUpdate),
      ((''DELETE'', PathUserByID), http_handleDelete)]"

subsection \<open>The port as the handlers use it\<close>

text \<open>
  What the handlers rely on: no call of the port panics, a listing only when its limit and its
  offset are not in range. The bounds come from the validator.
\<close>

lemma g_list_vfields_ok:
  assumes "validator_documented vld is_email is_uuid"
  shows "vld (g_list_vfields q) = None \<longleftrightarrow>
    pred_option (\<lambda>s. s \<in> set statuses) (gl_Status q)
    \<and> 1 \<le> sint (gl_Limit q) \<and> sint (gl_Limit q) \<le> 1000 \<and> 0 \<le> sint (gl_Offset q)"
proof -
  have "vld (g_list_vfields q) = None \<longleftrightarrow> (\<forall>f\<in>set (g_list_vfields q). field_ok is_email is_uuid f)"
    using assms by (simp add: validator_documented_def)
  then show ?thesis
    by (cases "gl_Status q") (auto simp: g_list_vfields_def field_ok_simps)
qed

lemma parseListRequest_ok:
  assumes "validator_documented (hh_validate h) is_email is_uuid"
    and "parseListRequest h r = Inr req"
  shows "pred_option (\<lambda>s. s \<in> set statuses) (gl_Status req)
    \<and> 1 \<le> sint (gl_Limit req) \<and> sint (gl_Limit req) \<le> 1000 \<and> 0 \<le> sint (gl_Offset req)"
proof -
  have "hh_validate h (g_list_vfields req) = None"
    using assms(2) by (auto simp: parseListRequest_def Let_def split: option.splits if_splits)
  then show ?thesis using g_list_vfields_ok [OF assms(1)] by simp
qed

lemma respond_Panic [simp]: "snd (respond f r) = Panic m \<longleftrightarrow> snd r = Panic m"
  by (auto simp: respond_def split: prod.split outcome.split sum.split)

locale quiet_port =
  fixes port :: "('c, 's) user_port"
  assumes create_quiet: "snd (up_CreateUser port c q s) \<noteq> Panic m"
    and get_quiet: "snd (up_GetUserByID port c i s) \<noteq> Panic m"
    and email_quiet: "snd (up_GetUserByEmail port c em s) \<noteq> Panic m"
    and list_quiet: "\<lbrakk>0 < sint (gl_Limit l); 0 \<le> sint (gl_Offset l)\<rbrakk> \<Longrightarrow>
      snd (up_ListUsers port c l s) \<noteq> Panic m"
    and update_quiet: "snd (up_UpdateUser port c i u s) \<noteq> Panic m"
    and delete_quiet: "snd (up_DeleteUser port c i s) \<noteq> Panic m"
begin

lemma list_route_quiet:
  assumes v: "validator_documented (hh_validate h) is_email is_uuid" and "hh_service h = port"
  shows "snd (http_handleList h c r s) \<noteq> Panic m"
proof (cases "parseListRequest h r")
  case (Inr req)
  from parseListRequest_ok [OF v this] show ?thesis
    using list_quiet [of req c s m] Inr assms(2) by (simp add: http_handleList_def)
qed (simp add: http_handleList_def)

lemma routes_quiet:
  assumes "validator_documented (hh_validate h) is_email is_uuid" and "hh_service h = port"
    and "(k, act) \<in> set RegisterRoutes"
  shows "snd (act h c r s) \<noteq> Panic m"
  using assms(3) list_route_quiet [OF assms(1,2)]
  by (auto simp: assms(2) RegisterRoutes_def http_handleHealth_def http_handleCreate_def
      http_handleGetByEmail_def http_handleGetByID_def http_handleUpdate_def http_handleDelete_def
      Let_def create_quiet get_quiet email_quiet update_quiet delete_quiet split: option.splits)

end

end
