(* ===== verification/Ws_Hub.thy ===== *)
theory Ws_Hub
  imports Gateway_Core
begin

text \<open>
  The WebSocket hub and its clients (\<open>wshandler/hub.go\<close>, \<open>client.go\<close>,
  \<open>config.go\<close>, \<open>message.go\<close>). A Go channel is its buffer, its capacity and whether it
  is closed. The hub's goroutine, the read and write pumps of the clients and the event
  forwarders interleave: a step of one of them is a function of the hub's state, the relation
  \<open>ws_step\<close> puts them together. Closing a closed channel and sending on one panics.
\<close>

subsection \<open>Channels\<close>

record 'a chan =
  ch_buf :: "'a list"
  ch_cap :: nat
  ch_closed :: bool

text \<open>\<open>make(chan T, n)\<close> for \<open>n > 0\<close>; the rendezvous of an unbuffered channel is not modelled.\<close>

definition make_chan :: "nat \<Rightarrow> 'a chan" where
  "make_chan n = \<lparr>ch_buf = [], ch_cap = n, ch_closed = False\<rparr>"

definition close_chan :: "'a chan \<Rightarrow> 'a chan outcome" where
  "close_chan ch =
     (if ch_closed ch then Panic ''close of closed channel'' else Return (ch\<lparr>ch_closed := True\<rparr>))"

text \<open>A send that may not wait: \<open>None\<close> when the buffer is full.\<close>

definition try_send :: "'a \<Rightarrow> 'a chan \<Rightarrow> 'a chan option outcome" where
  "try_send x ch =
     (if ch_closed ch then Panic ''send on closed channel''
      else if length (ch_buf ch) < ch_cap ch then Return (Some (ch\<lparr>ch_buf := ch_buf ch @ [x]\<rparr>))
      else Return None)"

subsection \<open>Messages\<close>

record ws_error =
  we_Code :: string
  we_Message :: string

record ws_response =
  wr_Action :: string
  wr_RequestID :: string
  wr_Success :: bool
  wr_Payload :: "json option"
  wr_Error :: "ws_error option"

record ws_message =
  wm_Action :: string
  wm_RequestID :: string
  wm_Payload :: "json option"

definition dec_ws_message :: "ws_message decoder" where
  "dec_ws_message = dec_struct
     [(''action'', field wm_Action (\<lambda>v. wm_Action_update (\<lambda>_. v)) dec_string),
      (''request_id'', field wm_RequestID (\<lambda>v. wm_RequestID_update (\<lambda>_. v)) dec_string),
      (''payload'', field wm_Payload (\<lambda>v. wm_Payload_update (\<lambda>_. v)) dec_raw)]"

definition zero_ws_message :: ws_message where
  "zero_ws_message = \<lparr>wm_Action = '''', wm_RequestID = '''', wm_Payload = None\<rparr>"

definition enc_ws_error :: "ws_error \<Rightarrow> json" where
  "enc_ws_error e =
     obj [(''code'', Some (JStr (we_Code e))), (''message'', Some (JStr (we_Message e)))]"

definition enc_ws_response :: "ws_response \<Rightarrow> json" where
  "enc_ws_response r = obj
     [(''action'', Some (JStr (wr_Action r))),
      (''request_id'', if wr_RequestID r = [] then None else Some (JStr (wr_RequestID r))),
      (''success'', Some (JBool (wr_Success r))),
      (''payload'', wr_Payload r),
      (''error'', map_option enc_ws_error (wr_Error r))]"

subsection \<open>Clients\<close>

text \<open>Durations in nanoseconds.\<close>

definition second :: int where
  "second = 10 ^ 9"

definition writeWait :: int where
  "writeWait = 10 * second"

definition pongWait :: int where
  "pongWait = 60 * second"

definition pingPeriod :: int where
  "pingPeriod = (pongWait * 9) div 10"

definition maxMessageSize :: int where
  "maxMessageSize = 512 * 1024"

definition sendBufferSize :: nat where
  "sendBufferSize = 256"

record ws_config =
  wcfg_WriteWait :: int
  wcfg_PongWait :: int
  wcfg_PingPeriod :: int
  wcfg_MaxMessageSize :: int
  wcfg_SendBufferSize :: nat

definition ws_DefaultConfig :: ws_config where
  "ws_DefaultConfig =
     \<lparr>wcfg_WriteWait = writeWait, wcfg_PongWait = pongWait, wcfg_PingPeriod = pingPeriod,
      wcfg_MaxMessageSize = maxMessageSize, wcfg_SendBufferSize = sendBufferSize\<rparr>"

record ws_client =
  wc_send :: "ws_response chan"
  wc_subscriptions :: "string set"

definition newClient :: "ws_config \<Rightarrow> ws_client" where
  "newClient cfg = \<lparr>wc_send = make_chan (wcfg_SendBufferSize cfg), wc_subscriptions = {}\<rparr>"

definition ws_subscribe :: "string \<Rightarrow> ws_client \<Rightarrow> ws_client" where
  "ws_subscribe eventType c = c\<lparr>wc_subscriptions := insert eventType (wc_subscriptions c)\<rparr>"

definition ws_unsubscribe :: "string \<Rightarrow> ws_client \<Rightarrow> ws_client" where
  "ws_unsubscribe eventType c = c\<lparr>wc_subscriptions := wc_subscriptions c - {eventType}\<rparr>"

definition isSubscribed :: "ws_client \<Rightarrow> string \<Rightarrow> bool" where
  "isSubscribed c eventType \<longleftrightarrow> eventType \<in> wc_subscriptions c"

subsection \<open>The hub\<close>

text \<open>
  Clients are named by numbers, the addresses of the Go values. \<open>hs_clients\<close> holds every
  client that was created, \<open>hs_registered\<close> the keys of the hub's map.
\<close>

record hub_state =
  hs_clients :: "nat \<rightharpoonup> ws_client"
  hs_registered :: "nat set"
  hs_broadcast :: "(string \<times> ws_response) chan"

definition NewHub :: hub_state where
  "NewHub =
     \<lparr>hs_clients = Map.empty, hs_registered = {}, hs_broadcast = make_chan sendBufferSize\<rparr>"

definition set_client :: "nat \<Rightarrow> ws_client \<Rightarrow> hub_state \<Rightarrow> hub_state" where
  "set_client i c h = h\<lparr>hs_clients := (hs_clients h)(i \<mapsto> c)\<rparr>"

definition hub_register :: "nat \<Rightarrow> hub_state \<Rightarrow> hub_state" where
  "hub_register i h = h\<lparr>hs_registered := insert i (hs_registered h)\<rparr>"

text \<open>\<open>delete(h.clients, client); close(client.send)\<close>\<close>

definition hub_drop :: "nat \<Rightarrow> hub_state \<Rightarrow> hub_state outcome" where
  "hub_drop i h =
     (case hs_clients h i of
        None \<Rightarrow> Return (h\<lparr>hs_registered := hs_registered h - {i}\<rparr>)
      | Some c \<Rightarrow>
          (case close_chan (wc_send c) of
             Panic m \<Rightarrow> Panic m
           | Return ch \<Rightarrow>
               Return (set_client i (c\<lparr>wc_send := ch\<rparr>)
                 (h\<lparr>hs_registered := hs_registered h - {i}\<rparr>))))"

definition hub_unregister :: "nat \<Rightarrow> hub_state \<Rightarrow> hub_state outcome" where
  "hub_unregister i h = (if i \<in> hs_registered h then hub_drop i h else Return h)"

text \<open>The body of the broadcast loop for one client.\<close>

definition hub_deliver :: "string \<times> ws_response \<Rightarrow> nat \<Rightarrow> hub_state \<Rightarrow> hub_state outcome" where
  "hub_deliver msg i h =
     (case hs_clients h i of
        None \<Rightarrow> Return h
      | Some c \<Rightarrow>
          if \<not> isSubscribed c (fst msg) then Return h
          else (case try_send (snd msg) (wc_send c) of
                  Panic m \<Rightarrow> Panic m
                | Return (Some ch) \<Rightarrow> Return (set_client i (c\<lparr>wc_send := ch\<rparr>) h)
                | Return None \<Rightarrow> hub_drop i h))"

text \<open>The loop over the hub's map, in the order Go picks.\<close>

fun hub_broadcast :: "string \<times> ws_response \<Rightarrow> nat list \<Rightarrow> hub_state \<Rightarrow> hub_state outcome" where
  "hub_broadcast msg [] h = Return h"
| "hub_broadcast msg (i # it) h =
     (case hub_deliver msg i h of
        Panic m \<Rightarrow> Panic m
      | Return h' \<Rightarrow> hub_broadcast msg it h')"

definition hub_iteration_ok :: "nat list \<Rightarrow> hub_state \<Rightarrow> bool" where
  "hub_iteration_ok it h \<longleftrightarrow> distinct it \<and> set it = hs_registered h"

text \<open>\<open>Hub.Broadcast\<close>: queued, or dropped when the hub's buffer is full.\<close>

definition Broadcast :: "string \<Rightarrow> ws_response \<Rightarrow> hub_state \<Rightarrow> hub_state outcome" where
  "Broadcast eventType resp h =
     (case try_send (eventType, resp) (hs_broadcast h) of
        Panic m \<Rightarrow> Panic m
      | Return None \<Rightarrow> Return h
      | Return (Some ch) \<Rightarrow> Return (h\<lparr>hs_broadcast := ch\<rparr>))"

text \<open>
  \<open>c.send <- resp\<close> in the read pump, \<open>None\<close> while it would block; and the write pump's
  receive, with what it writes to the connection: a response, or the close message when the
  channel is closed and empty. A write that fails ends the pump: it makes no further step.
\<close>

definition client_send :: "nat \<Rightarrow> ws_response \<Rightarrow> hub_state \<Rightarrow> hub_state option outcome" where
  "client_send i resp h =
     (case hs_clients h i of
        None \<Rightarrow> Return (Some h)
      | Some c \<Rightarrow>
          (case try_send resp (wc_send c) of
             Panic m \<Rightarrow> Panic m
           | Return None \<Rightarrow> Return None
           | Return (Some ch) \<Rightarrow> Return (Some (set_client i (c\<lparr>wc_send := ch\<rparr>) h))))"

datatype written = Frame json | CloseFrame | Nothing

definition write_step :: "nat \<Rightarrow> hub_state \<Rightarrow> hub_state \<times> written" where
  "write_step i h =
     (case hs_clients h i of
        None \<Rightarrow> (h, Nothing)
      | Some c \<Rightarrow>
          (case ch_buf (wc_send c) of
             r # rs \<Rightarrow>
               (set_client i (c\<lparr>wc_send := (wc_send c)\<lparr>ch_buf := rs\<rparr>\<rparr>) h, Frame (enc_ws_response r))
           | [] \<Rightarrow> (h, if ch_closed (wc_send c) then CloseFrame else Nothing)))"

subsection \<open>Steps\<close>

datatype ws_label =
    Connect nat
  | Register nat
  | Unregister nat
  | HubTakes "nat list"
  | Announce string ws_response
  | Respond nat ws_response
  | SubscribeTo nat string
  | UnsubscribeFrom nat string
  | WriteOut nat

text \<open>
  A step of one goroutine, \<open>None\<close> when it is not enabled: the hub serves its three channels,
  the read pump waits for room in the buffer. \<open>ServeHTTP\<close> registers a client once, right after it
  made it, so a client whose channel is closed is not registered again. The hub's loop over its
  clients is one step: no other goroutine sees the hub's map, and what it does with one client does
  not depend on the others, so that a client's own steps fall before or after the hub's turn for it
  (in which order two clients see one broadcast is not distinguished).
\<close>

definition update_client :: "nat \<Rightarrow> (ws_client \<Rightarrow> ws_client) \<Rightarrow> hub_state \<Rightarrow> hub_state" where
  "update_client i f h =
     (case hs_clients h i of None \<Rightarrow> h | Some c \<Rightarrow> set_client i (f c) h)"

fun map_outcome :: "('a \<Rightarrow> 'b) \<Rightarrow> 'a outcome \<Rightarrow> 'b outcome" where
  "map_outcome f (Return x) = Return (f x)"
| "map_outcome f (Panic m) = Panic m"

fun ws_exec :: "ws_config \<Rightarrow> ws_label \<Rightarrow> hub_state \<Rightarrow> hub_state option outcome" where
  "ws_exec cfg (Connect i) h =
     Return (if hs_clients h i = None then Some (set_client i (newClient cfg) h) else None)"
| "ws_exec cfg (Register i) h =
     Return (case hs_clients h i of
               None \<Rightarrow> None
             | Some c \<Rightarrow> if ch_closed (wc_send c) then None else Some (hub_register i h))"
| "ws_exec cfg (Unregister i) h = map_outcome Some (hub_unregister i h)"
| "ws_exec cfg (HubTakes it) h =
     (if hub_iteration_ok it h
      then case ch_buf (hs_broadcast h) of
             [] \<Rightarrow> Return None
           | msg # msgs \<Rightarrow>
               map_outcome Some
                 (hub_broadcast msg it
                   (h\<lparr>hs_broadcast := (hs_broadcast h)\<lparr>ch_buf := msgs\<rparr>\<rparr>))
      else Return None)"
| "ws_exec cfg (Announce t resp) h = map_outcome Some (Broadcast t resp h)"
| "ws_exec cfg (Respond i resp) h = client_send i resp h"
| "ws_exec cfg (SubscribeTo i t) h = Return (Some (update_client i (ws_subscribe t) h))"
| "ws_exec cfg (UnsubscribeFrom i t) h = Return (Some (update_client i (ws_unsubscribe t) h))"
| "ws_exec cfg (WriteOut i) h = Return (Some (fst (write_step i h)))"

inductive ws_step :: "ws_config \<Rightarrow> hub_state \<Rightarrow> ws_label \<Rightarrow> hub_state \<Rightarrow> bool" for cfg where
  "ws_exec cfg l h = Return (Some h') \<Longrightarrow> ws_step cfg h l h'"

inductive ws_reachable :: "ws_config \<Rightarrow> hub_state \<Rightarrow> bool" for cfg where
  start: "ws_reachable cfg NewHub"
| step: "\<lbrakk>ws_reachable cfg h; ws_step cfg h l h'\<rbrakk> \<Longrightarrow> ws_reachable cfg h'"

inductive_simps ws_step_simps: "ws_step cfg h l h'"

lemma map_outcome_Return: "map_outcome f r = Return y \<longleftrightarrow> (\<exists>x. r = Return x \<and> y = f x)"
  by (cases r) auto

subsection \<open>The invariant\<close>

text \<open>
  A registered client exists and its channel is open; no channel holds more than its capacity;
  the hub's own channel is never closed.
\<close>

definition chan_ok :: "nat \<Rightarrow> 'a chan \<Rightarrow> bool" where
  "chan_ok n ch \<longleftrightarrow> ch_cap ch = n \<and> length (ch_buf ch) \<le> n"

lemma chan_ok_ops [ws_simps]:
  "chan_ok n (make_chan n)"
  "chan_ok n (ch\<lparr>ch_closed := b\<rparr>) = chan_ok n ch"
  "\<lbrakk>chan_ok n ch; length (ch_buf ch) < ch_cap ch\<rbrakk> \<Longrightarrow> chan_ok n (ch\<lparr>ch_buf := ch_buf ch @ [x]\<rparr>)"
  "\<lbrakk>chan_ok n ch; ch_buf ch = x # xs\<rbrakk> \<Longrightarrow> chan_ok n (ch\<lparr>ch_buf := xs\<rparr>)"
  by (auto simp: chan_ok_def make_chan_def)

definition hub_ok :: "ws_config \<Rightarrow> hub_state \<Rightarrow> bool" where
  "hub_ok cfg h \<longleftrightarrow>
     (\<forall>i\<in>hs_registered h. \<exists>c. hs_clients h i = Some c \<and> \<not> ch_closed (wc_send c))
     \<and> (\<forall>i c. hs_clients h i = Some c \<longrightarrow> chan_ok (wcfg_SendBufferSize cfg) (wc_send c))
     \<and> \<not> ch_closed (hs_broadcast h) \<and> chan_ok sendBufferSize (hs_broadcast h)"

lemma hub_ok_NewHub: "hub_ok cfg NewHub"
  by (simp add: hub_ok_def NewHub_def ws_simps) (simp add: make_chan_def)

lemma hub_okD:
  assumes "hub_ok cfg h"
  shows "i \<in> hs_registered h \<Longrightarrow> \<exists>c. hs_clients h i = Some c \<and> \<not> ch_closed (wc_send c)"
    and "hs_clients h i = Some c \<Longrightarrow> chan_ok (wcfg_SendBufferSize cfg) (wc_send c)"
  using assms by (auto simp: hub_ok_def)

lemma set_client_simps [ws_simps]:
  "hs_clients (set_client i c h) = (hs_clients h)(i \<mapsto> c)"
  "hs_registered (set_client i c h) = hs_registered h"
  "hs_broadcast (set_client i c h) = hs_broadcast h"
  by (simp_all add: set_client_def)

lemma hub_ok_set_client:
  assumes "hub_ok cfg h" and "chan_ok (wcfg_SendBufferSize cfg) (wc_send c)"
    and "i \<in> hs_registered h \<Longrightarrow> \<not> ch_closed (wc_send c)"
  shows "hub_ok cfg (set_client i c h)"
  using assms by (auto simp: hub_ok_def ws_simps)

lemma try_send_simps [ws_simps]:
  "ch_closed ch \<Longrightarrow> try_send x ch = Panic ''send on closed channel''"
  "\<lbrakk>\<not> ch_closed ch; length (ch_buf ch) < ch_cap ch\<rbrakk> \<Longrightarrow>
     try_send x ch = Return (Some (ch\<lparr>ch_buf := ch_buf ch @ [x]\<rparr>))"
  "\<lbrakk>\<not> ch_closed ch; \<not> length (ch_buf ch) < ch_cap ch\<rbrakk> \<Longrightarrow> try_send x ch = Return None"
  by (simp_all add: try_send_def)

text \<open>Dropping a registered client does not panic and keeps the invariant.\<close>

lemma hub_drop_ok:
  assumes "hub_ok cfg h" and "i \<in> hs_registered h"
  shows "\<exists>c. hs_clients h i = Some c
    \<and> hub_drop i h = Return (set_client i (c\<lparr>wc_send := (wc_send c)\<lparr>ch_closed := True\<rparr>\<rparr>)
        (h\<lparr>hs_registered := hs_registered h - {i}\<rparr>))
    \<and> hub_ok cfg (set_client i (c\<lparr>wc_send := (wc_send c)\<lparr>ch_closed := True\<rparr>\<rparr>)
        (h\<lparr>hs_registered := hs_registered h - {i}\<rparr>))"
proof -
  obtain c where c: "hs_clients h i = Some c" "\<not> ch_closed (wc_send c)"
    using hub_okD(1) [OF assms] by blast
  have "hub_ok cfg (h\<lparr>hs_registered := hs_registered h - {i}\<rparr>)"
    using assms(1) by (simp add: hub_ok_def)
  then have "hub_ok cfg (set_client i (c\<lparr>wc_send := (wc_send c)\<lparr>ch_closed := True\<rparr>\<rparr>)
      (h\<lparr>hs_registered := hs_registered h - {i}\<rparr>))"
    using hub_okD(2) [OF assms(1) c(1)] by (intro hub_ok_set_client) (simp_all add: ws_simps)
  then show ?thesis using c by (simp add: hub_drop_def close_chan_def)
qed

lemma hub_deliver_ok:
  assumes ok: "hub_ok cfg h" and i: "i \<in> hs_registered h"
  shows "\<exists>h'. hub_deliver msg i h = Return h' \<and> hub_ok cfg h'
    \<and> hs_registered h - {i} \<subseteq> hs_registered h'"
proof -
  obtain c where c: "hs_clients h i = Some c" "\<not> ch_closed (wc_send c)"
    using hub_okD(1) [OF ok i] by blast
  show ?thesis
  proof (cases "isSubscribed c (fst msg) \<and> \<not> length (ch_buf (wc_send c)) < ch_cap (wc_send c)")
    case True
    then have "hub_deliver msg i h = hub_drop i h" using c by (simp add: hub_deliver_def ws_simps)
    then show ?thesis using hub_drop_ok [OF ok i] by (auto simp: ws_simps)
  next
    case False
    show ?thesis
    proof (cases "isSubscribed c (fst msg)")
      case True
      with False c have "hub_deliver msg i h = Return (set_client i
          (c\<lparr>wc_send := (wc_send c)\<lparr>ch_buf := ch_buf (wc_send c) @ [snd msg]\<rparr>\<rparr>) h)"
        by (simp add: hub_deliver_def ws_simps)
      moreover have "hub_ok cfg (set_client i
          (c\<lparr>wc_send := (wc_send c)\<lparr>ch_buf := ch_buf (wc_send c) @ [snd msg]\<rparr>\<rparr>) h)"
        using True False c hub_okD(2) [OF ok c(1)] by (intro hub_ok_set_client [OF ok]) (simp_all add: ws_simps)
      ultimately show ?thesis by (auto simp: ws_simps)
    next
      case False
      then show ?thesis using c ok by (auto simp: hub_deliver_def)
    qed
  qed
qed

lemma hub_broadcast_ok:
  assumes "hub_ok cfg h" and "distinct it" and "set it \<subseteq> hs_registered h"
  shows "\<exists>h'. hub_broadcast msg it h = Return h' \<and> hub_ok cfg h'"
  using assms
proof (induction it arbitrary: h)
  case (Cons i it)
  obtain h' where "hub_deliver msg i h = Return h'" "hub_ok cfg h'"
    "hs_registered h - {i} \<subseteq> hs_registered h'"
    using hub_deliver_ok [OF Cons.prems(1), of i msg] Cons.prems(3) by auto
  moreover from this have "set it \<subseteq> hs_registered h'" using Cons.prems(2,3) by auto
  ultimately show ?case using Cons by simp
qed simp

text \<open>The steps of the hub: they never panic in a state that satisfies the invariant.\<close>

lemma hub_unregister_ok: "hub_ok cfg h \<Longrightarrow> \<exists>h'. hub_unregister i h = Return h' \<and> hub_ok cfg h'"
  using hub_drop_ok [of cfg h i] by (auto simp: hub_unregister_def)

lemma Broadcast_ok: "hub_ok cfg h \<Longrightarrow> \<exists>h'. Broadcast t resp h = Return h' \<and> hub_ok cfg h'"
  by (auto simp: Broadcast_def try_send_def hub_ok_def ws_simps)

lemma client_send_ok: "\<lbrakk>hub_ok cfg h; client_send i resp h = Return (Some h')\<rbrakk> \<Longrightarrow> hub_ok cfg h'"
  using hub_okD [of cfg h i]
  by (auto simp: client_send_def try_send_def ws_simps
      split: option.splits outcome.splits if_splits intro!: hub_ok_set_client)

lemma update_client_ok:
  assumes "hub_ok cfg h" and "\<And>c. wc_send (f c) = wc_send c"
  shows "hub_ok cfg (update_client i f h)"
  using assms hub_okD [OF assms(1), of i]
  by (auto simp: update_client_def split: option.split intro!: hub_ok_set_client)

lemma write_step_ok: "hub_ok cfg h \<Longrightarrow> hub_ok cfg (fst (write_step i h))"
  using hub_okD [of cfg h i]
  by (auto simp: write_step_def ws_simps split: option.split list.split intro!: hub_ok_set_client)

lemma hub_take_ok:
  assumes "hub_ok cfg h" and "hub_iteration_ok it h" and "ch_buf (hs_broadcast h) = msg # msgs"
  shows "\<exists>h'. hub_broadcast msg it (h\<lparr>hs_broadcast := (hs_broadcast h)\<lparr>ch_buf := msgs\<rparr>\<rparr>) = Return h'
    \<and> hub_ok cfg h'"
proof (rule hub_broadcast_ok)
  show "hub_ok cfg (h\<lparr>hs_broadcast := (hs_broadcast h)\<lparr>ch_buf := msgs\<rparr>\<rparr>)"
    using assms(1,3) by (simp add: hub_ok_def ws_simps)
qed (use assms(2) in \<open>simp_all add: hub_iteration_ok_def\<close>)

lemma ws_step_ok:
  assumes "ws_step cfg h l h'" and ok: "hub_ok cfg h"
  shows "hub_ok cfg h'"
proof -
  have e: "ws_exec cfg l h = Return (Some h')" using assms(1) by (simp add: ws_step_simps)
  show ?thesis
  proof (cases l)
    case (Connect i)
    then show ?thesis
      using e ok by (auto simp: newClient_def ws_simps split: if_splits intro!: hub_ok_set_client)
        (simp add: make_chan_def)
  next
    case (Register i)
    then show ?thesis
      using e ok by (auto simp: hub_register_def hub_ok_def split: option.splits if_splits)
  next
    case (Unregister i)
    then show ?thesis using e hub_unregister_ok [OF ok, of i] by auto
  next
    case (HubTakes it)
    then show ?thesis
      using e hub_take_ok [OF ok, of it] by (fastforce split: if_splits list.splits)
  next
    case (Announce t resp)
    then show ?thesis using e Broadcast_ok [OF ok, of t resp] by auto
  next
    case (Respond i resp)
    then show ?thesis using e client_send_ok [OF ok] by simp
  next
    case (SubscribeTo i t)
    then show ?thesis using e update_client_ok [OF ok, of "ws_subscribe t" i]
      by (simp add: ws_subscribe_def)
  next
    case (UnsubscribeFrom i t)
    then show ?thesis using e update_client_ok [OF ok, of "ws_unsubscribe t" i]
      by (simp add: ws_unsubscribe_def)
  next
    case (WriteOut i)
    then show ?thesis using e write_step_ok [OF ok, of i] by simp
  qed
qed

lemma ws_reachable_ok: "ws_reachable cfg h \<Longrightarrow> hub_ok cfg h"
  by (induction rule: ws_reachable.induct) (auto simp: hub_ok_NewHub intro: ws_step_ok)

subsection \<open>What a broadcast does\<close>

definition overflows :: "string \<times> ws_response \<Rightarrow> ws_client \<Rightarrow> bool" where
  "overflows msg c \<longleftrightarrow>
     isSubscribed c (fst msg) \<and> \<not> length (ch_buf (wc_send c)) < ch_cap (wc_send c)"

definition received :: "string \<times> ws_response \<Rightarrow> ws_client \<Rightarrow> ws_client" where
  "received msg c =
     (if \<not> isSubscribed c (fst msg) then c
      else if overflows msg c then c\<lparr>wc_send := (wc_send c)\<lparr>ch_closed := True\<rparr>\<rparr>
      else c\<lparr>wc_send := (wc_send c)\<lparr>ch_buf := ch_buf (wc_send c) @ [snd msg]\<rparr>\<rparr>)"

text \<open>
  The state after a broadcast to the clients \<open>S\<close>: every subscriber with room has the response
  at the end of its buffer, a subscriber without room is closed and gone from the hub's map, the
  others are as before.
\<close>

definition broadcast_result :: "string \<times> ws_response \<Rightarrow> nat set \<Rightarrow> hub_state \<Rightarrow> hub_state" where
  "broadcast_result msg S h =
     h\<lparr>hs_clients := (\<lambda>i. if i \<in> S then map_option (received msg) (hs_clients h i)
                         else hs_clients h i),
       hs_registered := {i \<in> hs_registered h. \<not> (i \<in> S
         \<and> (\<exists>c. hs_clients h i = Some c \<and> overflows msg c))}\<rparr>"

lemma hub_state_eqI:
  fixes g h :: hub_state
  assumes "hs_clients g = hs_clients h" and "hs_registered g = hs_registered h"
    and "hs_broadcast g = hs_broadcast h"
  shows "g = h"
  using assms by (cases g; cases h) simp

lemma broadcast_result_simps [ws_simps]:
  "hs_clients (broadcast_result msg S h) =
     (\<lambda>i. if i \<in> S then map_option (received msg) (hs_clients h i) else hs_clients h i)"
  "hs_registered (broadcast_result msg S h) =
     {i \<in> hs_registered h. \<not> (i \<in> S \<and> (\<exists>c. hs_clients h i = Some c \<and> overflows msg c))}"
  "hs_broadcast (broadcast_result msg S h) = hs_broadcast h"
  by (simp_all add: broadcast_result_def)

lemma broadcast_result_empty: "broadcast_result msg {} h = h"
  by (rule hub_state_eqI) (simp_all add: ws_simps)

lemma hub_deliver_result:
  assumes "hub_ok cfg h" and i: "i \<in> hs_registered h"
  shows "hub_deliver msg i h = Return (broadcast_result msg {i} h)"
proof -
  obtain c where c: "hs_clients h i = Some c" "\<not> ch_closed (wc_send c)"
    using hub_okD(1) [OF assms] by blast
  show ?thesis
  proof (cases "overflows msg c")
    case True
    then have "hub_deliver msg i h = hub_drop i h"
      using c by (simp add: hub_deliver_def overflows_def ws_simps)
    moreover have "hub_drop i h = Return (broadcast_result msg {i} h)"
      using hub_drop_ok [OF assms] c(1) True
      by (auto simp: ws_simps received_def overflows_def intro!: hub_state_eqI)
    ultimately show ?thesis by simp
  next
    case False
    then show ?thesis
      using c i by (auto simp: hub_deliver_def overflows_def received_def ws_simps
          intro!: hub_state_eqI)
  qed
qed

lemma broadcast_result_step:
  "i \<notin> S \<Longrightarrow> broadcast_result msg S (broadcast_result msg {i} h) = broadcast_result msg (insert i S) h"
  by (rule hub_state_eqI) (auto simp: ws_simps)

lemma hub_broadcast_result:
  assumes "hub_ok cfg h" and "distinct it" and "set it \<subseteq> hs_registered h"
  shows "hub_broadcast msg it h = Return (broadcast_result msg (set it) h)"
  using assms
proof (induction it arbitrary: h)
  case (Cons i it)
  have i: "hub_deliver msg i h = Return (broadcast_result msg {i} h)"
    using Cons.prems by (intro hub_deliver_result) auto
  moreover have "hub_ok cfg (broadcast_result msg {i} h)"
    using hub_deliver_ok [OF Cons.prems(1), of i msg] Cons.prems(3) i by auto
  moreover have "set it \<subseteq> hs_registered (broadcast_result msg {i} h)"
    using Cons.prems(2,3) by (auto simp: broadcast_result_def)
  ultimately show ?case
    using Cons.prems(2) Cons.IH [of "broadcast_result msg {i} h"] broadcast_result_step [of i "set it"]
    by simp
qed (simp add: broadcast_result_empty)

subsection \<open>A slow client\<close>

text \<open>An event announced to an idle hub and taken by it.\<close>

lemma announce_round:
  assumes h: "ws_reachable cfg h" and idle: "ch_buf (hs_broadcast h) = []"
    and it: "hub_iteration_ok it h"
  shows "ws_reachable cfg (broadcast_result (t, resp) (set it) h)"
proof -
  have ok: "hub_ok cfg h" using h by (rule ws_reachable_ok)
  let ?h1 = "h\<lparr>hs_broadcast := (hs_broadcast h)\<lparr>ch_buf := [(t, resp)]\<rparr>\<rparr>"
  have "ws_step cfg h (Announce t resp) ?h1"
    using ok idle by (simp add: ws_step_simps Broadcast_def try_send_def hub_ok_def chan_ok_def
        sendBufferSize_def)
  with h have h1: "ws_reachable cfg ?h1" by (rule ws_reachable.step)
  have "hub_broadcast (t, resp) it h = Return (broadcast_result (t, resp) (set it) h)"
    using ok it by (intro hub_broadcast_result) (simp_all add: hub_iteration_ok_def)
  moreover have "?h1\<lparr>hs_broadcast := (hs_broadcast ?h1)\<lparr>ch_buf := []\<rparr>\<rparr> = h"
    using idle by (intro hub_state_eqI) simp_all
  ultimately have "ws_step cfg ?h1 (HubTakes it) (broadcast_result (t, resp) (set it) h)"
    using it by (simp add: ws_step_simps hub_iteration_ok_def)
  with h1 show ?thesis by (rule ws_reachable.step)
qed

definition slow_client :: "string \<Rightarrow> nat \<Rightarrow> hub_state \<Rightarrow> bool" where
  "slow_client t k h \<longleftrightarrow>
     hs_registered h = {0} \<and> ch_buf (hs_broadcast h) = []
     \<and> (\<exists>c. hs_clients h 0 = Some c \<and> isSubscribed c t \<and> length (ch_buf (wc_send c)) = k)"

lemma slow_client_start: "\<exists>h. ws_reachable cfg h \<and> slow_client t 0 h"
proof -
  let ?h1 = "set_client 0 (newClient cfg) NewHub"
  let ?h2 = "hub_register 0 ?h1"
  let ?h3 = "update_client 0 (ws_subscribe t) ?h2"
  have 1: "ws_reachable cfg ?h1"
    by (rule ws_reachable.step [OF ws_reachable.start, of _ "Connect 0"])
      (simp add: ws_step_simps NewHub_def)
  have 2: "ws_reachable cfg ?h2"
    by (rule ws_reachable.step [OF 1, of "Register 0"])
      (simp add: ws_step_simps ws_simps newClient_def make_chan_def)
  have 3: "ws_reachable cfg ?h3"
    by (rule ws_reachable.step [OF 2, of "SubscribeTo 0 t"]) (simp add: ws_step_simps)
  moreover have "slow_client t 0 ?h3"
    by (simp add: slow_client_def update_client_def hub_register_def ws_simps NewHub_def
        make_chan_def newClient_def ws_subscribe_def isSubscribed_def)
  ultimately show ?thesis by blast
qed

lemma slow_client_fills:
  "k \<le> wcfg_SendBufferSize cfg \<Longrightarrow> \<exists>h. ws_reachable cfg h \<and> slow_client t k h"
proof (induction k)
  case (Suc k)
  then obtain h where h: "ws_reachable cfg h" and s: "slow_client t k h" by auto
  obtain c where c: "hs_clients h 0 = Some c" "isSubscribed c t" "length (ch_buf (wc_send c)) = k"
    using s by (auto simp: slow_client_def)
  have "ch_cap (wc_send c) = wcfg_SendBufferSize cfg"
    using hub_okD(2) [OF ws_reachable_ok [OF h] c(1)] by (simp add: chan_ok_def)
  then have room: "\<not> overflows (t, resp) c" for resp
    using Suc.prems c(3) by (simp add: overflows_def)
  obtain resp :: ws_response where True by blast
  have "ws_reachable cfg (broadcast_result (t, resp) (set [0]) h)"
    using s by (intro announce_round [OF h]) (simp_all add: slow_client_def hub_iteration_ok_def)
  moreover have "slow_client t (Suc k) (broadcast_result (t, resp) (set [0]) h)"
    using s c room by (auto simp: slow_client_def ws_simps received_def isSubscribed_def)
  ultimately show ?case by blast
qed (simp add: slow_client_start)

subsection \<open>Properties\<close>

text \<open>
  C28. In every state the goroutines can reach, the hub's own steps do not panic: it never
  closes a channel twice and never sends on a closed one.
\<close>

theorem hub_never_panics:
  assumes "ws_reachable cfg h"
  shows "(\<forall>m. ws_exec cfg (Unregister i) h \<noteq> Panic m)
    \<and> (\<forall>m. ws_exec cfg (HubTakes it) h \<noteq> Panic m)
    \<and> (\<forall>m. ws_exec cfg (Announce t resp) h \<noteq> Panic m)"
proof -
  have ok: "hub_ok cfg h" using assms by (rule ws_reachable_ok)
  have "ws_exec cfg (HubTakes it) h \<noteq> Panic m" for m
    using hub_take_ok [OF ok, of it]
    by (cases "hub_iteration_ok it h"; cases "ch_buf (hs_broadcast h)") fastforce+
  then show ?thesis
    using hub_unregister_ok [OF ok, of i] Broadcast_ok [OF ok, of t resp] by auto
qed

theorem hub_never_panics_witness:
  "(\<forall>m. ws_exec ws_DefaultConfig (Unregister 3) NewHub \<noteq> Panic m)
    \<and> (\<forall>m. ws_exec ws_DefaultConfig (HubTakes []) NewHub \<noteq> Panic m)
    \<and> (\<forall>m. ws_exec ws_DefaultConfig (Announce ''user.created''
          \<lparr>wr_Action = '''', wr_RequestID = '''', wr_Success = True, wr_Payload = None,
           wr_Error = None\<rparr>) NewHub \<noteq> Panic m)"
  by (rule hub_never_panics [OF ws_reachable.start])

text \<open>
  C32. A broadcast puts the response once into the buffer of each registered subscriber that has
  room, closes and drops the subscribers that have none, and leaves all others alone; the order
  in which Go iterates over the hub's map makes no difference.
\<close>

theorem broadcast_reaches_each_subscriber_once:
  assumes "ws_reachable cfg h" and "hub_iteration_ok it h"
  shows "hub_broadcast msg it h = Return (broadcast_result msg (hs_registered h) h)"
  using hub_broadcast_result [OF ws_reachable_ok [OF assms(1)], of it msg] assms(2)
  by (simp add: hub_iteration_ok_def)

theorem broadcast_reaches_each_subscriber_once_witness:
  "hub_broadcast (''user.deleted'', \<lparr>wr_Action = ''user.deleted'', wr_RequestID = '''',
       wr_Success = True, wr_Payload = None, wr_Error = None\<rparr>) [0]
     (hub_register 0 (set_client 0 (newClient ws_DefaultConfig) NewHub))
   = Return (broadcast_result (''user.deleted'', \<lparr>wr_Action = ''user.deleted'', wr_RequestID = '''',
       wr_Success = True, wr_Payload = None, wr_Error = None\<rparr>) {0}
     (hub_register 0 (set_client 0 (newClient ws_DefaultConfig) NewHub)))"
proof -
  let ?h = "hub_register 0 (set_client 0 (newClient ws_DefaultConfig) NewHub)"
  have "ws_step ws_DefaultConfig NewHub (Connect 0) (set_client 0 (newClient ws_DefaultConfig) NewHub)"
    by (simp add: ws_step_simps NewHub_def)
  then have "ws_reachable ws_DefaultConfig (set_client 0 (newClient ws_DefaultConfig) NewHub)"
    by (rule ws_reachable.step [OF ws_reachable.start])
  moreover have "ws_step ws_DefaultConfig (set_client 0 (newClient ws_DefaultConfig) NewHub)
      (Register 0) ?h"
    by (simp add: ws_step_simps ws_simps newClient_def make_chan_def)
  ultimately have "ws_reachable ws_DefaultConfig ?h" by (rule ws_reachable.step)
  moreover have "hs_registered ?h = {0}" by (simp add: hub_register_def ws_simps NewHub_def)
  ultimately show ?thesis
    using broadcast_reaches_each_subscriber_once [of ws_DefaultConfig ?h "[0]"]
    by (simp add: hub_iteration_ok_def)
qed

text \<open>
  C38. A client that is too slow is dropped by closing its channel, and its read pump does not
  learn of it: there is a reachable state in which answering the client's next request sends on
  a closed channel and panics.
\<close>

theorem answering_a_dropped_client_panics:
  "\<exists>h. ws_reachable cfg h \<and> (\<exists>m. ws_exec cfg (Respond 0 resp) h = Panic m)"
proof -
  obtain h where h: "ws_reachable cfg h"
    and s: "slow_client ''user.created'' (wcfg_SendBufferSize cfg) h"
    using slow_client_fills [of "wcfg_SendBufferSize cfg" cfg] by blast
  obtain c where c: "hs_clients h 0 = Some c" "isSubscribed c ''user.created''"
    "length (ch_buf (wc_send c)) = wcfg_SendBufferSize cfg"
    using s by (auto simp: slow_client_def)
  let ?h = "broadcast_result (''user.created'', resp) (set [0]) h"
  have "ch_cap (wc_send c) = wcfg_SendBufferSize cfg"
    using hub_okD(2) [OF ws_reachable_ok [OF h] c(1)] by (simp add: chan_ok_def)
  then have "hs_clients ?h 0 = Some (c\<lparr>wc_send := (wc_send c)\<lparr>ch_closed := True\<rparr>\<rparr>)"
    using c by (simp add: ws_simps received_def overflows_def)
  then have "ws_exec cfg (Respond 0 resp) ?h = Panic ''send on closed channel''"
    by (simp add: client_send_def try_send_simps)
  moreover have "ws_reachable cfg ?h"
    using s by (intro announce_round [OF h]) (simp_all add: slow_client_def hub_iteration_ok_def)
  ultimately show ?thesis by blast
qed

end
