(* ===== verification/Cache_Sync.thy ===== *)
theory Cache_Sync
  imports User_Client "HOL-Library.Sublist"
begin

text \<open>
  How a client's cache follows the service's events (\<open>client.go\<close>: \<open>Subscribe\<close>,
  \<open>subscribeForCacheSync\<close>, \<open>processCacheUpdates\<close>, \<open>applyCacheUpdate\<close>,
  \<open>Close\<close>). Three goroutines pass values along: the subscription callbacks decode a message
  and offer it to \<open>eventCh\<close>, the forwarder turns an event into a cache update and offers it
  to \<open>updateCh\<close>, the processor applies updates to the cache. Both channels hold
  \<open>cacheUpdateBufferSize\<close> values; an offer to a full channel drops the value. The
  goroutines' interleaving, with each other and with the lookups that populate the cache, is a
  step relation.
\<close>

definition cacheUpdateBufferSize :: nat where
  "cacheUpdateBufferSize = 256"

text \<open>\<open>select { case ch <- x: default: }\<close>: the channel's new content, and whether \<open>x\<close> is in it.\<close>

definition offer :: "nat \<Rightarrow> 'a \<Rightarrow> 'a list \<Rightarrow> 'a list \<times> bool" where
  "offer cap x q = (if length q < cap then (q @ [x], True) else (q, False))"

subsection \<open>Events and cache updates\<close>

datatype payload =
    CreatedPayload user_event
  | UpdatedPayload user_event
  | DeletedPayload deleted_event

record event =
  ev_Type :: string
  ev_Payload :: payload

record cache_update =
  cu_eventType :: string
  cu_user :: "user_dto option"
  cu_userID :: string

text \<open>
  The three callbacks of \<open>Subscribe\<close>: which event a message on a subject becomes. Data that
  does not decode is logged and dropped.
\<close>

definition event_of_msg :: "string \<Rightarrow> json option \<Rightarrow> event option" where
  "event_of_msg subject data =
     (if subject = SubjectUserCreated then
        map_option (\<lambda>e. \<lparr>ev_Type = ''created'', ev_Payload = CreatedPayload e\<rparr>)
          (unmarshal dec_user_event \<lparr>evt_User = zero_dto\<rparr> data)
      else if subject = SubjectUserUpdated then
        map_option (\<lambda>e. \<lparr>ev_Type = ''updated'', ev_Payload = UpdatedPayload e\<rparr>)
          (unmarshal dec_user_event \<lparr>evt_User = zero_dto\<rparr> data)
      else if subject = SubjectUserDeleted then
        map_option (\<lambda>e. \<lparr>ev_Type = ''deleted'', ev_Payload = DeletedPayload e\<rparr>)
          (unmarshal dec_deleted_event \<lparr>evt_UserID = ''''\<rparr> data)
      else None)"

text \<open>
  The forwarder's switch: the type assertion on the payload decides, a type outside the three
  falls through.
\<close>

definition update_of_event :: "event \<Rightarrow> cache_update option" where
  "update_of_event e =
     (if ev_Type e = ''created'' then
        (case ev_Payload e of
           CreatedPayload p \<Rightarrow>
             Some \<lparr>cu_eventType = ''created'', cu_user = Some (evt_User p), cu_userID = ''''\<rparr>
         | _ \<Rightarrow> None)
      else if ev_Type e = ''updated'' then
        (case ev_Payload e of
           UpdatedPayload p \<Rightarrow>
             Some \<lparr>cu_eventType = ''updated'', cu_user = Some (evt_User p), cu_userID = ''''\<rparr>
         | _ \<Rightarrow> None)
      else if ev_Type e = ''deleted'' then
        (case ev_Payload e of
           DeletedPayload p \<Rightarrow>
             Some \<lparr>cu_eventType = ''deleted'', cu_user = None, cu_userID = evt_UserID p\<rparr>
         | _ \<Rightarrow> None)
      else None)"

definition applyCacheUpdate :: "cache_update \<Rightarrow> cache \<Rightarrow> cache" where
  "applyCacheUpdate u c =
     (if cu_eventType u = ''created'' \<or> cu_eventType u = ''updated'' then
        (case cu_user u of None \<Rightarrow> c | Some v \<Rightarrow> cache_set v c)
      else if cu_eventType u = ''deleted'' then cache_delete (cu_userID u) c
      else c)"

text \<open>A published message's way to the cache, with nothing dropped.\<close>

definition update_of_msg :: "string \<times> json \<Rightarrow> cache_update option" where
  "update_of_msg m = Option.bind (event_of_msg (fst m) (Some (snd m))) update_of_event"

definition apply_msg :: "string \<times> json \<Rightarrow> cache \<Rightarrow> cache" where
  "apply_msg m c = (case update_of_msg m of None \<Rightarrow> c | Some u \<Rightarrow> applyCacheUpdate u c)"

lemma apply_msg_simps [cache_simps]:
  "apply_msg (SubjectUserCreated, enc_user_event e) c = cache_set (evt_User e) c"
  "apply_msg (SubjectUserUpdated, enc_user_event e) c = cache_set (evt_User e) c"
  "apply_msg (SubjectUserDeleted, enc_deleted_event d) c = cache_delete (evt_UserID d) c"
  by (simp_all add: apply_msg_def update_of_msg_def event_of_msg_def subject_defs wire_simps
      update_of_event_def applyCacheUpdate_def)

subsection \<open>The pipeline\<close>

datatype processor = Running | Draining | Exited

record pipeline =
  pl_eventCh :: "event list"
  pl_updateCh :: "cache_update list"
  pl_cache :: cache
  pl_stopClosed :: bool
  pl_processor :: processor

datatype pipe_label =
    Deliver string "json option"
  | Forward
  | Apply cache_update
  | Populate user_dto
  | CloseStop
  | SeeStop
  | Exit

definition deliver_step :: "string \<Rightarrow> json option \<Rightarrow> pipeline \<Rightarrow> pipeline" where
  "deliver_step subject data p =
     (case event_of_msg subject data of
        None \<Rightarrow> p
      | Some e \<Rightarrow> p\<lparr>pl_eventCh := fst (offer cacheUpdateBufferSize e (pl_eventCh p))\<rparr>)"

definition forward_step :: "event \<Rightarrow> event list \<Rightarrow> pipeline \<Rightarrow> pipeline" where
  "forward_step e es p =
     (case update_of_event e of
        None \<Rightarrow> p\<lparr>pl_eventCh := es\<rparr>
      | Some u \<Rightarrow>
          p\<lparr>pl_eventCh := es,
            pl_updateCh := fst (offer cacheUpdateBufferSize u (pl_updateCh p))\<rparr>)"

text \<open>
  The processor's outer \<open>select\<close> takes an update or the closed \<open>stopCh\<close>, whichever it
  picks when both are ready; the inner one drains \<open>updateCh\<close> and leaves when it is empty.
\<close>

inductive pipe_step :: "pipeline \<Rightarrow> pipe_label \<Rightarrow> pipeline \<Rightarrow> bool" where
  deliver: "pipe_step p (Deliver subject data) (deliver_step subject data p)"
| forward: "pl_eventCh p = e # es \<Longrightarrow> pipe_step p Forward (forward_step e es p)"
| apply_update: "\<lbrakk>pl_processor p \<noteq> Exited; pl_updateCh p = u # us\<rbrakk> \<Longrightarrow>
    pipe_step p (Apply u) (p\<lparr>pl_updateCh := us, pl_cache := applyCacheUpdate u (pl_cache p)\<rparr>)"
| populate: "pipe_step p (Populate v) (p\<lparr>pl_cache := cache_set v (pl_cache p)\<rparr>)"
| close_stop: "\<not> pl_stopClosed p \<Longrightarrow> pipe_step p CloseStop (p\<lparr>pl_stopClosed := True\<rparr>)"
| see_stop: "\<lbrakk>pl_processor p = Running; pl_stopClosed p\<rbrakk> \<Longrightarrow>
    pipe_step p SeeStop (p\<lparr>pl_processor := Draining\<rparr>)"
| exit: "\<lbrakk>pl_processor p = Draining; pl_updateCh p = []\<rbrakk> \<Longrightarrow>
    pipe_step p Exit (p\<lparr>pl_processor := Exited\<rparr>)"

inductive pipe_run :: "pipeline \<Rightarrow> pipe_label list \<Rightarrow> pipeline \<Rightarrow> bool" where
  nil: "pipe_run p [] p"
| snoc: "\<lbrakk>pipe_run p ls q; pipe_step q l r\<rbrakk> \<Longrightarrow> pipe_run p (ls @ [l]) r"

inductive_cases pipe_step_DeliverE [elim!]: "pipe_step p (Deliver s d) q"
inductive_cases pipe_step_ForwardE [elim!]: "pipe_step p Forward q"
inductive_cases pipe_step_ApplyE [elim!]: "pipe_step p (Apply u) q"
inductive_cases pipe_step_PopulateE [elim!]: "pipe_step p (Populate v) q"
inductive_cases pipe_step_CloseStopE [elim!]: "pipe_step p CloseStop q"
inductive_cases pipe_step_SeeStopE [elim!]: "pipe_step p SeeStop q"
inductive_cases pipe_step_ExitE [elim!]: "pipe_step p Exit q"

lemmas pipe_step_elims = pipe_step_DeliverE pipe_step_ForwardE pipe_step_ApplyE
  pipe_step_PopulateE pipe_step_CloseStopE pipe_step_SeeStopE pipe_step_ExitE

definition start_pipeline :: "cache \<Rightarrow> pipeline" where
  "start_pipeline c =
     \<lparr>pl_eventCh = [], pl_updateCh = [], pl_cache = c, pl_stopClosed = False,
      pl_processor = Running\<rparr>"

subsection \<open>Order and loss\<close>

text \<open>
  The updates under way, oldest first; what a label brings into the pipeline, what it writes
  into the cache.
\<close>

definition in_flight :: "pipeline \<Rightarrow> cache_update list" where
  "in_flight p = pl_updateCh p @ List.map_filter update_of_event (pl_eventCh p)"

fun arriving :: "pipe_label list \<Rightarrow> cache_update list" where
  "arriving [] = []"
| "arriving (Deliver s d # ls) =
     (case Option.bind (event_of_msg s d) update_of_event of
        None \<Rightarrow> arriving ls
      | Some u \<Rightarrow> u # arriving ls)"
| "arriving (_ # ls) = arriving ls"

fun applied :: "pipe_label list \<Rightarrow> cache_update list" where
  "applied [] = []"
| "applied (Apply u # ls) = u # applied ls"
| "applied (_ # ls) = applied ls"

lemma arriving_append [simp]: "arriving (ls @ ms) = arriving ls @ arriving ms"
  by (induction ls rule: arriving.induct) (simp_all split: option.split)

lemma applied_append [simp]: "applied (ls @ ms) = applied ls @ applied ms"
  by (induction ls rule: applied.induct) simp_all

lemma map_filter_snoc [simp]:
  "List.map_filter f (xs @ [x]) =
     List.map_filter f xs @ (case f x of None \<Rightarrow> [] | Some y \<Rightarrow> [y])"
  by (induction xs) (simp_all add: List.map_filter_simps split: option.split)

lemma map_filter_Cons [simp]:
  "List.map_filter f (x # xs) =
     (case f x of None \<Rightarrow> List.map_filter f xs | Some y \<Rightarrow> y # List.map_filter f xs)"
  by (simp add: List.map_filter_simps)

lemma map_filter_Nil [simp]: "List.map_filter f [] = []"
  by (simp add: List.map_filter_simps)

lemma deliver_in_flight:
  "subseq (in_flight (deliver_step s d p)) (in_flight p @ arriving [Deliver s d])"
  by (auto simp: deliver_step_def in_flight_def offer_def split: option.split bind_splits)

lemma forward_in_flight:
  "pl_eventCh p = e # es \<Longrightarrow> subseq (in_flight (forward_step e es p)) (in_flight p)"
  by (auto simp: forward_step_def in_flight_def offer_def split: option.split
      intro!: list_emb_append_mono)

lemma pipe_step_subseq:
  "pipe_step p l q \<Longrightarrow> subseq (applied [l] @ in_flight q) (in_flight p @ arriving [l])"
proof (induction rule: pipe_step.induct)
  case (deliver p s d)
  then show ?case using deliver_in_flight [of s d p] by simp
next
  case (forward p e es)
  then show ?case using forward_in_flight [of p e es] by simp
qed (simp_all add: in_flight_def)

text \<open>
  Whatever is dropped, the updates written and those still under way are a subsequence of what
  was there and what arrived: nothing is duplicated, invented or reordered.
\<close>

lemma pipe_run_subseq:
  "pipe_run p ls q \<Longrightarrow> subseq (applied ls @ in_flight q) (in_flight p @ arriving ls)"
proof (induction rule: pipe_run.induct)
  case (snoc p ls q l r)
  have "subseq (applied ls @ (applied [l] @ in_flight r)) (applied ls @ (in_flight q @ arriving [l]))"
    by (rule list_emb_append_mono [OF _ pipe_step_subseq [OF snoc.hyps(2)]]) simp
  moreover have "subseq ((applied ls @ in_flight q) @ arriving [l])
      ((in_flight p @ arriving ls) @ arriving [l])"
    by (rule list_emb_append_mono [OF snoc.IH]) simp
  ultimately have "subseq (applied ls @ (applied [l] @ in_flight r))
      ((in_flight p @ arriving ls) @ arriving [l])"
    unfolding append_assoc by (rule subseq_order.trans)
  then show ?case by (simp only: applied_append arriving_append append_assoc)
qed simp

text \<open>Every queued event is one the forwarder takes.\<close>

definition pipe_typed :: "pipeline \<Rightarrow> bool" where
  "pipe_typed p \<longleftrightarrow> (\<forall>e\<in>set (pl_eventCh p). update_of_event e \<noteq> None)"

lemma update_of_event_of_msg: "event_of_msg s d = Some e \<Longrightarrow> update_of_event e \<noteq> None"
  by (auto simp: event_of_msg_def update_of_event_def split: if_splits)

lemma pipe_step_typed: "\<lbrakk>pipe_step p l q; pipe_typed p\<rbrakk> \<Longrightarrow> pipe_typed q"
  by (induction rule: pipe_step.induct)
    (auto simp: pipe_typed_def deliver_step_def forward_step_def offer_def
      dest: update_of_event_of_msg split: option.splits)

lemma pipe_run_typed: "\<lbrakk>pipe_run p ls q; pipe_typed p\<rbrakk> \<Longrightarrow> pipe_typed q"
  by (induction rule: pipe_run.induct) (auto intro: pipe_step_typed)

lemma length_in_flight:
  "pipe_typed p \<Longrightarrow> length (in_flight p) = length (pl_updateCh p) + length (pl_eventCh p)"
proof -
  have "\<forall>e\<in>set es. update_of_event e \<noteq> None \<Longrightarrow>
      length (List.map_filter update_of_event es) = length es" for es
    by (induction es) auto
  then show "pipe_typed p \<Longrightarrow> ?thesis" by (simp add: in_flight_def pipe_typed_def)
qed

lemma pipe_step_exact:
  assumes "pipe_step p l q" and "pipe_typed p"
    and "length (in_flight p) + length (arriving [l]) \<le> cacheUpdateBufferSize"
  shows "applied [l] @ in_flight q = in_flight p @ arriving [l]"
  using assms
proof (induction rule: pipe_step.induct)
  case (deliver p s d)
  then show ?case
    using length_in_flight [of p] update_of_event_of_msg [of s d]
    by (auto simp: deliver_step_def in_flight_def offer_def split: option.splits bind_splits)
next
  case (forward p e es)
  then show ?case
    using length_in_flight [of p]
    by (auto simp: forward_step_def in_flight_def offer_def split: option.splits)
qed (simp_all add: in_flight_def)

text \<open>
  As long as no more updates arrive than one channel holds, nothing is dropped and the order is
  kept.
\<close>

lemma pipe_run_exact:
  assumes "pipe_run p ls q" and "pipe_typed p"
    and "length (in_flight p) + length (arriving ls) \<le> cacheUpdateBufferSize"
  shows "applied ls @ in_flight q = in_flight p @ arriving ls"
  using assms
proof (induction rule: pipe_run.induct)
  case (snoc p ls q l r)
  have IH: "applied ls @ in_flight q = in_flight p @ arriving ls"
    using snoc.IH snoc.prems by simp
  then have "length (in_flight q) \<le> length (in_flight p) + length (arriving ls)"
    by (metis le_add2 length_append)
  then have "applied [l] @ in_flight r = in_flight q @ arriving [l]"
    using snoc.prems pipe_run_typed [OF snoc.hyps(1)] by (intro pipe_step_exact [OF snoc.hyps(2)]) simp_all
  with IH show ?case by (metis append.assoc applied_append arriving_append)
qed simp

subsection \<open>What the cache holds\<close>

fun cache_write :: "pipe_label \<Rightarrow> cache \<Rightarrow> cache" where
  "cache_write (Apply u) = applyCacheUpdate u"
| "cache_write (Populate v) = cache_set v"
| "cache_write _ = (\<lambda>c. c)"

lemma pipe_run_cache: "pipe_run p ls q \<Longrightarrow> pl_cache q = fold cache_write ls (pl_cache p)"
proof (induction rule: pipe_run.induct)
  case (snoc p ls q l r)
  have "pl_cache r = cache_write l (pl_cache q)"
    using snoc.hyps(2)
    by (induction rule: pipe_step.induct)
      (simp_all add: deliver_step_def forward_step_def split: option.split)
  with snoc.IH show ?case by simp
qed simp

lemma fold_cache_write_applied:
  "(\<And>v. Populate v \<notin> set ls) \<Longrightarrow> fold cache_write ls c = fold applyCacheUpdate (applied ls) c"
proof (induction ls arbitrary: c)
  case (Cons l ls)
  have IH: "fold cache_write ls c' = fold applyCacheUpdate (applied ls) c'" for c'
    using Cons.prems by (intro Cons.IH) simp
  have no: "l \<noteq> Populate v" for v
    using Cons.prems [of v] by auto
  show ?case by (cases l) (simp_all add: IH no)
qed simp

text \<open>A burst that fits, delivered and worked off: the cache is what the messages say, in order.\<close>

lemma pipe_quiescent:
  assumes "pipe_run (start_pipeline c) ls q" and "in_flight q = []"
    and "length (arriving ls) \<le> cacheUpdateBufferSize" and "\<And>v. Populate v \<notin> set ls"
  shows "pl_cache q = fold applyCacheUpdate (arriving ls) c"
proof -
  have "applied ls @ in_flight q = in_flight (start_pipeline c) @ arriving ls"
    using assms(3) by (intro pipe_run_exact [OF assms(1)])
      (simp_all add: start_pipeline_def pipe_typed_def in_flight_def)
  then have "applied ls = arriving ls"
    using assms(2) by (simp add: start_pipeline_def in_flight_def)
  then show ?thesis
    using pipe_run_cache [OF assms(1)] fold_cache_write_applied [OF assms(4), of c]
    by (simp add: start_pipeline_def)
qed

text \<open>The messages a run delivers, and what they bring.\<close>

fun delivered :: "pipe_label list \<Rightarrow> (string \<times> json) list" where
  "delivered [] = []"
| "delivered (Deliver s (Some j) # ls) = (s, j) # delivered ls"
| "delivered (_ # ls) = delivered ls"

lemma event_of_msg_None [simp]: "event_of_msg s None = None"
  by (simp add: event_of_msg_def wire_simps)

lemma arriving_delivered: "arriving ls = List.map_filter update_of_msg (delivered ls)"
  by (induction ls rule: delivered.induct) (simp_all add: update_of_msg_def split: option.split)

lemma fold_apply_msg:
  "fold apply_msg ms c = fold applyCacheUpdate (List.map_filter update_of_msg ms) c"
  by (induction ms arbitrary: c) (simp_all add: apply_msg_def split: option.split)

lemma length_map_filter_le: "length (List.map_filter f xs) \<le> length xs"
  by (induction xs) (auto split: option.split)

lemma pipe_quiescent_delivered:
  assumes "pipe_run (start_pipeline c) ls q" and "pl_eventCh q = []" and "pl_updateCh q = []"
    and "length (delivered ls) \<le> cacheUpdateBufferSize" and "\<And>v. Populate v \<notin> set ls"
  shows "pl_cache q = fold apply_msg (delivered ls) c"
proof -
  have "length (arriving ls) \<le> cacheUpdateBufferSize"
    using assms(4) length_map_filter_le [of update_of_msg "delivered ls"]
    by (simp add: arriving_delivered)
  then show ?thesis
    using pipe_quiescent [OF assms(1) _ _ assms(5)] assms(2,3)
    by (simp add: in_flight_def fold_apply_msg arriving_delivered)
qed

text \<open>One message on its way through an idle pipeline.\<close>

lemma single_event_run:
  assumes "event_of_msg s (Some j) = Some e" and "update_of_event e = Some u"
  shows "pipe_run (start_pipeline c) [Deliver s (Some j), Forward, Apply u]
    (start_pipeline (applyCacheUpdate u c))"
proof -
  let ?p0 = "start_pipeline c"
  let ?p1 = "deliver_step s (Some j) ?p0"
  let ?p2 = "forward_step e [] ?p1"
  have 1: "pl_eventCh ?p1 = [e]"
    using assms(1) by (simp add: deliver_step_def offer_def start_pipeline_def
        cacheUpdateBufferSize_def)
  have 2: "pl_processor ?p2 \<noteq> Exited" "pl_updateCh ?p2 = [u]"
    using assms by (simp_all add: forward_step_def deliver_step_def offer_def start_pipeline_def
        cacheUpdateBufferSize_def)
  have 3: "?p2\<lparr>pl_updateCh := [], pl_cache := applyCacheUpdate u (pl_cache ?p2)\<rparr>
      = start_pipeline (applyCacheUpdate u c)"
    using assms by (simp add: forward_step_def deliver_step_def offer_def start_pipeline_def
        cacheUpdateBufferSize_def)
  show ?thesis
    using pipe_run.snoc [OF pipe_run.snoc [OF pipe_run.snoc [OF pipe_run.nil
      pipe_step.deliver] pipe_step.forward [OF 1]] pipe_step.apply_update [OF 2]] 3 by simp
qed

lemma deleted_event_run:
  "pipe_run (start_pipeline c)
     [Deliver SubjectUserDeleted (Some (enc_deleted_event \<lparr>evt_UserID = i\<rparr>)), Forward,
      Apply \<lparr>cu_eventType = ''deleted'', cu_user = None, cu_userID = i\<rparr>]
     (start_pipeline (cache_delete i c))"
proof -
  let ?e = "\<lparr>ev_Type = ''deleted'', ev_Payload = DeletedPayload \<lparr>evt_UserID = i\<rparr>\<rparr>"
  have 1: "event_of_msg SubjectUserDeleted (Some (enc_deleted_event \<lparr>evt_UserID = i\<rparr>)) = Some ?e"
    by (simp add: event_of_msg_def subject_defs wire_simps)
  have 2: "update_of_event ?e = Some \<lparr>cu_eventType = ''deleted'', cu_user = None, cu_userID = i\<rparr>"
    by (simp add: update_of_event_def)
  show ?thesis using single_event_run [OF 1 2, of c] by (simp add: applyCacheUpdate_def)
qed

subsection \<open>Properties\<close>

text \<open>
  C13. Under every interleaving of the client's goroutines, with both channels overflowing or
  not, the updates written to the cache and those still queued form a subsequence of what
  arrived: none is applied twice, invented or reordered.
\<close>

theorem cache_updates_keep_order:
  "pipe_run (start_pipeline c) ls q \<Longrightarrow>
     subseq (applied ls @ in_flight q) (List.map_filter update_of_msg (delivered ls))"
  using pipe_run_subseq [of "start_pipeline c" ls q]
  by (simp add: start_pipeline_def in_flight_def arriving_delivered)

theorem cache_updates_keep_order_witness:
  "let d = \<lparr>evt_UserID = ''x''\<rparr>; j = enc_deleted_event d;
       u = \<lparr>cu_eventType = ''deleted'', cu_user = None, cu_userID = ''x''\<rparr>;
       ls = [Deliver SubjectUserDeleted (Some j), Forward, Apply u]
   in subseq (applied ls @ in_flight (start_pipeline newCache))
        (List.map_filter update_of_msg (delivered ls))"
proof -
  note run = deleted_event_run [of newCache "''x''"]
  from cache_updates_keep_order [OF run] show ?thesis
    by (simp add: Let_def in_flight_def start_pipeline_def)
qed

text \<open>
  The events of one user arrive on three subscriptions. An update that overtakes the
  deletion of its user is harmless, one that is overtaken by it leaves the deleted user in the
  cache.
\<close>

theorem overtaken_update_keeps_deleted_user:
  "fold apply_msg [(SubjectUserUpdated, enc_user_event \<lparr>evt_User = u\<rparr>),
      (SubjectUserDeleted, enc_deleted_event \<lparr>evt_UserID = dto_UserID u\<rparr>)] c (dto_UserID u) = None
   \<and> fold apply_msg [(SubjectUserDeleted, enc_deleted_event \<lparr>evt_UserID = dto_UserID u\<rparr>),
      (SubjectUserUpdated, enc_user_event \<lparr>evt_User = u\<rparr>)] c (dto_UserID u) = Some u"
  by (simp add: cache_simps cache_set_def cache_delete_def)

end
