(* ===== verification/Ws_Actions.thy ===== *)
theory Ws_Actions
  imports Ws_Hub Cache_Sync
begin

text \<open>
  The WebSocket router and its action handlers (\<open>wshandler/handler.go\<close>, \<open>helpers.go\<close>,
  \<open>create.go\<close> to \<open>update.go\<close>, \<open>subscribe.go\<close>, \<open>unsubscribe.go\<close>), and the
  goroutines that \<open>subscribe\<close> starts to turn the service's events into broadcasts. Every
  handler sends one response and returns, on each of its paths: the response is its result.
\<close>

record 's ws_world =
  ww_port :: 's
  ww_hub :: hub_state
  ww_forwarders :: nat

text \<open>
  What the handlers share: the service, and the answer \<open>Subscribe\<close> of the client port gets in
  a call, an error's text or \<open>None\<close>.
\<close>

record ('c, 's) ws_deps =
  wd_svc :: "('c, 's) user_port"
  wd_Subscribe :: "'c \<Rightarrow> string option"

type_synonym ('c, 's) ws_action =
  "('c, 's) ws_deps \<Rightarrow> 'c \<Rightarrow> nat \<Rightarrow> ws_message \<Rightarrow> 's ws_world \<Rightarrow> 's ws_world \<times> ws_response outcome"

subsection \<open>Responses\<close>

definition ws_errorResponse :: "ws_message \<Rightarrow> string \<Rightarrow> string \<Rightarrow> ws_response" where
  "ws_errorResponse msg code message =
     \<lparr>wr_Action = wm_Action msg, wr_RequestID = wm_RequestID msg, wr_Success = False,
      wr_Payload = None, wr_Error = Some \<lparr>we_Code = code, we_Message = message\<rparr>\<rparr>"

definition ws_success :: "ws_message \<Rightarrow> json option \<Rightarrow> ws_response" where
  "ws_success msg payload =
     \<lparr>wr_Action = wm_Action msg, wr_RequestID = wm_RequestID msg, wr_Success = True,
      wr_Payload = payload, wr_Error = None\<rparr>"

fun mapServiceError :: "ws_message \<Rightarrow> client_error \<Rightarrow> ws_response" where
  "mapServiceError msg (NotFoundError m) =
     ws_errorResponse msg ''NOT_FOUND'' (client_error_text (NotFoundError m))"
| "mapServiceError msg (AlreadyExistsError m) =
     ws_errorResponse msg ''ALREADY_EXISTS'' (client_error_text (AlreadyExistsError m))"
| "mapServiceError msg (ValidationError m) =
     ws_errorResponse msg ''VALIDATION_ERROR'' (client_error_text (ValidationError m))"
| "mapServiceError msg _ =
     ws_errorResponse msg ''INTERNAL_ERROR'' ''an internal error occurred''"

definition bad_payload :: "ws_message \<Rightarrow> string \<Rightarrow> ws_response" where
  "bad_payload msg message = ws_errorResponse msg ''BAD_REQUEST'' message"

text \<open>The response after a call of the service; a panic of the call passes through.\<close>

definition ws_respond ::
  "ws_message \<Rightarrow> ('a \<Rightarrow> json option) \<Rightarrow> 's ws_world \<Rightarrow> 's \<times> 'a client_result
     \<Rightarrow> 's ws_world \<times> ws_response outcome" where
  "ws_respond msg f w r =
     (w\<lparr>ww_port := fst r\<rparr>,
      case snd r of
        Panic m \<Rightarrow> Panic m
      | Return (Inl err) \<Rightarrow> Return (mapServiceError msg err)
      | Return (Inr x) \<Rightarrow> Return (ws_success msg (f x)))"

subsection \<open>Payloads\<close>

text \<open>The anonymous structs of the handlers.\<close>

record ws_id_payload =
  wp_UserID :: string

record ws_email_payload =
  wp_Email :: string

record ws_update_payload =
  wu_UserID :: string
  wu_Request :: g_update_request

definition dec_ws_id :: "ws_id_payload decoder" where
  "dec_ws_id = dec_struct
     [(''user_id'', field wp_UserID (\<lambda>v. wp_UserID_update (\<lambda>_. v)) dec_string)]"

definition dec_ws_email :: "ws_email_payload decoder" where
  "dec_ws_email = dec_struct
     [(''email'', field wp_Email (\<lambda>v. wp_Email_update (\<lambda>_. v)) dec_string)]"

text \<open>The embedded \<open>UpdateUserRequest\<close> lends its fields to the outer struct.\<close>

definition embed :: "g_update_request decoder \<Rightarrow> ws_update_payload decoder" where
  "embed d = field wu_Request (\<lambda>v. wu_Request_update (\<lambda>_. v)) d"

definition dec_ws_update :: "ws_update_payload decoder" where
  "dec_ws_update = dec_struct
     ((''user_id'', field wu_UserID (\<lambda>v. wu_UserID_update (\<lambda>_. v)) dec_string)
      # map (\<lambda>(n, d). (n, embed d)) g_update_fields)"

definition ws_default_list :: g_list_request where
  "ws_default_list = \<lparr>gl_Status = None, gl_Limit = 20, gl_Offset = 0\<rparr>"

subsection \<open>Handlers\<close>

definition ws_create :: "('c, 's) ws_action" where
  "ws_create d c i msg w =
     (case unmarshal dec_g_create zero_g_create (wm_Payload msg) of
        None \<Rightarrow> (w, Return (bad_payload msg ''invalid payload''))
      | Some req \<Rightarrow>
          ws_respond msg (\<lambda>u. Some (enc_g_user u)) w (up_CreateUser (wd_svc d) c req (ww_port w)))"

definition ws_get_by_id :: "('c, 's) ws_action" where
  "ws_get_by_id d c i msg w =
     (case unmarshal dec_ws_id \<lparr>wp_UserID = ''''\<rparr> (wm_Payload msg) of
        None \<Rightarrow> (w, Return (bad_payload msg ''user_id is required''))
      | Some p \<Rightarrow>
          if wp_UserID p = [] then (w, Return (bad_payload msg ''user_id is required''))
          else ws_respond msg (\<lambda>u. Some (enc_g_user u)) w
                 (up_GetUserByID (wd_svc d) c (wp_UserID p) (ww_port w)))"

definition ws_get_by_email :: "('c, 's) ws_action" where
  "ws_get_by_email d c i msg w =
     (case unmarshal dec_ws_email \<lparr>wp_Email = ''''\<rparr> (wm_Payload msg) of
        None \<Rightarrow> (w, Return (bad_payload msg ''email is required''))
      | Some p \<Rightarrow>
          if wp_Email p = [] then (w, Return (bad_payload msg ''email is required''))
          else ws_respond msg (\<lambda>u. Some (enc_g_user u)) w
                 (up_GetUserByEmail (wd_svc d) c (wp_Email p) (ww_port w)))"

text \<open>
  An absent payload and \<open>null\<close> leave the defaults; a limit of 0 becomes 20. Nothing else is
  checked.
\<close>

definition ws_list :: "('c, 's) ws_action" where
  "ws_list d c i msg w =
     (case (if wm_Payload msg \<noteq> None \<and> wm_Payload msg \<noteq> Some JNull
            then map_option (\<lambda>req. if gl_Limit req = 0 then req\<lparr>gl_Limit := 20\<rparr> else req)
                   (unmarshal dec_g_list ws_default_list (wm_Payload msg))
            else Some ws_default_list) of
        None \<Rightarrow> (w, Return (bad_payload msg ''invalid payload''))
      | Some req \<Rightarrow>
          ws_respond msg (\<lambda>us. Some (JArr (map enc_g_user us))) w
            (up_ListUsers (wd_svc d) c req (ww_port w)))"

definition ws_update :: "('c, 's) ws_action" where
  "ws_update d c i msg w =
     (case unmarshal dec_ws_update \<lparr>wu_UserID = '''', wu_Request = zero_g_update\<rparr> (wm_Payload msg) of
        None \<Rightarrow> (w, Return (bad_payload msg ''invalid payload''))
      | Some p \<Rightarrow>
          if wu_UserID p = [] then (w, Return (bad_payload msg ''user_id is required''))
          else ws_respond msg (\<lambda>u. Some (enc_g_user u)) w
                 (up_UpdateUser (wd_svc d) c (wu_UserID p) (wu_Request p) (ww_port w)))"

definition ws_delete :: "('c, 's) ws_action" where
  "ws_delete d c i msg w =
     (case unmarshal dec_ws_id \<lparr>wp_UserID = ''''\<rparr> (wm_Payload msg) of
        None \<Rightarrow> (w, Return (bad_payload msg ''user_id is required''))
      | Some p \<Rightarrow>
          if wp_UserID p = [] then (w, Return (bad_payload msg ''user_id is required''))
          else ws_respond msg (\<lambda>_. None) w
                 (up_DeleteUser (wd_svc d) c (wp_UserID p) (ww_port w)))"

definition ws_eventTypes :: "string list" where
  "ws_eventTypes = [''user.created'', ''user.updated'', ''user.deleted'']"

text \<open>
  \<open>subscribe\<close>: the client's marks are set before the service is asked; a success starts a
  forwarder that nothing stops.
\<close>

definition ws_subscribe_action :: "('c, 's) ws_action" where
  "ws_subscribe_action d c i msg w =
     (let w1 = w\<lparr>ww_hub := fold (\<lambda>t. update_client i (ws_subscribe t)) ws_eventTypes (ww_hub w)\<rparr> in
      case wd_Subscribe d c of
        Some err \<Rightarrow>
          (w1, Return (ws_errorResponse msg ''INTERNAL_ERROR'' ''failed to subscribe to events''))
      | None \<Rightarrow>
          (w1\<lparr>ww_forwarders := ww_forwarders w + 1\<rparr>, Return (ws_success msg None)))"

definition ws_unsubscribe_action :: "('c, 's) ws_action" where
  "ws_unsubscribe_action d c i msg w =
     (w\<lparr>ww_hub := fold (\<lambda>t. update_client i (ws_unsubscribe t)) ws_eventTypes (ww_hub w)\<rparr>,
      Return (ws_success msg None))"

subsection \<open>The router\<close>

definition ActionUserCreate :: string where "ActionUserCreate = ''user.create''"
definition ActionUserGetByID :: string where "ActionUserGetByID = ''user.get_by_id''"
definition ActionUserGetByEmail :: string where "ActionUserGetByEmail = ''user.get_by_email''"
definition ActionUserList :: string where "ActionUserList = ''user.list''"
definition ActionUserUpdate :: string where "ActionUserUpdate = ''user.update''"
definition ActionUserDelete :: string where "ActionUserDelete = ''user.delete''"
definition ActionUserSubscribe :: string where "ActionUserSubscribe = ''user.subscribe''"
definition ActionUserUnsubscribe :: string where "ActionUserUnsubscribe = ''user.unsubscribe''"

lemmas action_defs = ActionUserCreate_def ActionUserGetByID_def ActionUserGetByEmail_def
  ActionUserList_def ActionUserUpdate_def ActionUserDelete_def ActionUserSubscribe_def
  ActionUserUnsubscribe_def

definition NewActionRouter :: "(string \<times> ('c, 's) ws_action) list" where
  "NewActionRouter =
     [(ActionUserCreate, ws_create),
      (ActionUserGetByID, ws_get_by_id),
      (ActionUserGetByEmail, ws_get_by_email),
      (ActionUserList, ws_list),
      (ActionUserUpdate, ws_update),
      (ActionUserDelete, ws_delete),
      (ActionUserSubscribe, ws_subscribe_action),
      (ActionUserUnsubscribe, ws_unsubscribe_action)]"

definition ws_Route :: "('c, 's) ws_action" where
  "ws_Route d c i msg w =
     (case map_of NewActionRouter (wm_Action msg) of
        None \<Rightarrow>
          (w, Return (ws_errorResponse msg ''UNKNOWN_ACTION'' (''unknown action: '' @ wm_Action msg)))
      | Some h \<Rightarrow> h d c i msg w)"

text \<open>
  One turn of the read pump: a frame that does not decode ends the connection, \<open>None\<close>.
\<close>

definition ws_read ::
  "('c, 's) ws_deps \<Rightarrow> 'c \<Rightarrow> nat \<Rightarrow> json option \<Rightarrow> 's ws_world
     \<Rightarrow> ('s ws_world \<times> ws_response outcome) option" where
  "ws_read d c i frame w =
     map_option (\<lambda>msg. ws_Route d c i msg w) (unmarshal dec_ws_message zero_ws_message frame)"

subsection \<open>Event forwarders\<close>

text \<open>The package has its own copy of the adapter's function.\<close>

definition ws_toUserResponse :: "user_dto \<Rightarrow> g_user" where
  "ws_toUserResponse u =
     \<lparr>gr_UserID = dto_UserID u, gr_FirstName = dto_FirstName u, gr_LastName = dto_LastName u,
      gr_Email = dto_Email u, gr_Phone = dto_Phone u, gr_Age = dto_Age u,
      gr_Status = dto_Status u, gr_CreatedAt = dto_CreatedAt u, gr_UpdatedAt = dto_UpdatedAt u\<rparr>"

lemma ws_toUserResponse_same [simp]: "ws_toUserResponse = toUserResponse"
  by (rule ext) (simp add: ws_toUserResponse_def toUserResponse_def)

text \<open>What a forwarder broadcasts for an event; an unexpected payload is only logged.\<close>

definition broadcast_of_event :: "event \<Rightarrow> (string \<times> ws_response) option" where
  "broadcast_of_event e =
     (let resp = (\<lambda>t payload. Some (t,
            \<lparr>wr_Action = t, wr_RequestID = '''', wr_Success = True, wr_Payload = Some payload,
             wr_Error = None\<rparr>)) in
      if ev_Type e = ''created'' then
        (case ev_Payload e of
           CreatedPayload p \<Rightarrow> resp ''user.created'' (enc_g_user (ws_toUserResponse (evt_User p)))
         | _ \<Rightarrow> None)
      else if ev_Type e = ''updated'' then
        (case ev_Payload e of
           UpdatedPayload p \<Rightarrow> resp ''user.updated'' (enc_g_user (ws_toUserResponse (evt_User p)))
         | _ \<Rightarrow> None)
      else if ev_Type e = ''deleted'' then
        (case ev_Payload e of
           DeletedPayload p \<Rightarrow>
             resp ''user.deleted'' (JObj [(''user_id'', JStr (evt_UserID p))])
         | _ \<Rightarrow> None)
      else None)"

text \<open>
  What an event message makes the forwarders broadcast, as many times as there are of them, when no
  channel on the way is full (those channels and what they drop are in \<open>Ws_Forwarding\<close>); the hub
  then takes the broadcasts one by one, in the orders \<open>its\<close>.
\<close>

definition event_broadcasts :: "string \<Rightarrow> json option \<Rightarrow> 's ws_world \<Rightarrow> (string \<times> ws_response) list" where
  "event_broadcasts s data w =
     (case Option.bind (event_of_msg s data) broadcast_of_event of
        None \<Rightarrow> []
      | Some b \<Rightarrow> replicate (ww_forwarders w) b)"

fun hub_takes_all :: "(string \<times> ws_response) list \<Rightarrow> nat list list \<Rightarrow> hub_state \<Rightarrow> hub_state outcome" where
  "hub_takes_all [] its h = Return h"
| "hub_takes_all (b # bs) [] h = Return h"
| "hub_takes_all (b # bs) (it # its) h =
     (case hub_broadcast b it h of
        Panic m \<Rightarrow> Panic m
      | Return h' \<Rightarrow> hub_takes_all bs its h')"

end
