(* ===== verification/Go_Time.thy ===== *)
theory Go_Time
  imports Ums_Prelude
begin

text \<open>
  What the services use of Go's \<open>time.Time\<close>: an instant (Unix seconds and nanoseconds)
  with the offset of its location in seconds, compared by instant, and printed with
  \<open>Format(time.RFC3339)\<close>, which has no fraction of a second.
\<close>

datatype gotime = GoTime (unix_sec: int) (nsec: int) (zone_off: int)

text \<open>The zero \<open>time.Time\<close>: January 1 of the year 1, 00:00:00 UTC.\<close>

definition zero_time :: gotime where
  "zero_time = GoTime (- 62135596800) 0 0"

text \<open>Instants are compared, locations are not: a preorder.\<close>

instantiation gotime :: preorder
begin

definition less_eq_gotime :: "gotime \<Rightarrow> gotime \<Rightarrow> bool" where
  "s \<le> t \<longleftrightarrow> unix_sec s < unix_sec t \<or> unix_sec s = unix_sec t \<and> nsec s \<le> nsec t"

definition less_gotime :: "gotime \<Rightarrow> gotime \<Rightarrow> bool" where
  "s < t \<longleftrightarrow> unix_sec s < unix_sec t \<or> unix_sec s = unix_sec t \<and> nsec s < nsec t"

instance
  by standard (auto simp: less_eq_gotime_def less_gotime_def)

end

lemma gotime_total: "s \<le> t \<or> t \<le> (s :: gotime)"
  by (auto simp: less_eq_gotime_def)

subsection \<open>RFC 3339\<close>

text \<open>
  The civil date of a day number (days since 1970-01-01) in the proleptic Gregorian
  calendar: years are counted from March, in eras of 400 years.
\<close>

definition civil_of_days :: "int \<Rightarrow> int \<times> int \<times> int" where
  "civil_of_days z =
     (let z' = z + 719468; era = z' div 146097; doe = z' mod 146097;
          yoe = (doe - doe div 1460 + doe div 36524 - doe div 146096) div 365;
          doy = doe - (365 * yoe + yoe div 4 - yoe div 100);
          mp = (5 * doy + 2) div 153;
          d = doy - (153 * mp + 2) div 5 + 1;
          m = (if mp < 10 then mp + 3 else mp - 9);
          y = yoe + era * 400 + (if m \<le> 2 then 1 else 0)
      in (y, m, d))"

definition digit :: "nat \<Rightarrow> char" where
  "digit n = char_of (48 + n)"

text \<open>Decimal digits, padded with zeros to at least \<open>w\<close> of them.\<close>

fun dec_digits :: "nat \<Rightarrow> string" where
  "dec_digits n = (if n < 10 then [digit n] else dec_digits (n div 10) @ [digit (n mod 10)])"

declare dec_digits.simps [simp del]

definition pad_digits :: "nat \<Rightarrow> nat \<Rightarrow> string" where
  "pad_digits w n = (let s = dec_digits n in replicate (w - length s) (CHR ''0'') @ s)"

definition pad_int :: "nat \<Rightarrow> int \<Rightarrow> string" where
  "pad_int w i = (if i < 0 then CHR ''-'' # pad_digits w (nat (- i)) else pad_digits w (nat i))"

text \<open>The sign is that of the offset in whole minutes, cut towards zero.\<close>

definition rfc3339_zone :: "int \<Rightarrow> string" where
  "rfc3339_zone off =
     (if off = 0 then ''Z''
      else let m = \<bar>off\<bar> div 60 in
           (if off < 0 \<and> m \<noteq> 0 then ''-'' else ''+'') @ pad_int 2 (m div 60) @ '':'' @ pad_int 2 (m mod 60))"

definition rfc3339 :: "gotime \<Rightarrow> string" where
  "rfc3339 t =
     (let s = unix_sec t + zone_off t; day = s div 86400; r = s mod 86400 in
      case civil_of_days day of (y, m, d) \<Rightarrow>
        pad_int 4 y @ ''-'' @ pad_int 2 m @ ''-'' @ pad_int 2 d @ ''T''
        @ pad_int 2 (r div 3600) @ '':'' @ pad_int 2 (r mod 3600 div 60) @ '':''
        @ pad_int 2 (r mod 60) @ rfc3339_zone (zone_off t))"

text \<open>The printed form does not depend on the fraction of a second.\<close>

lemma rfc3339_ignores_nsec: "rfc3339 (GoTime s n z) = rfc3339 (GoTime s n' z)"
  by (simp add: rfc3339_def)

end
