(* ===== verification/Domain.thy ===== *)
theory Domain
  imports Go_Time
begin

text \<open>
  \<open>user-service/internal/domain\<close>: the \<open>User\<close> entity, its status and the sentinel
  errors, and the two ports that pass users and errors on
  (\<open>user-service/internal/ports\<close>). A pointer field is an \<open>option\<close>. A port's interface
  value is a record of its methods; the parameter \<open>'c\<close> stands for what the call's
  \<open>context.Context\<close> and the world below decide (deadline, database, network), \<open>'db\<close>
  for the state behind the port.
\<close>

subsection \<open>The entity\<close>

record user =
  u_UserId :: uuid
  u_FirstName :: string
  u_LastName :: string
  u_Email :: string
  u_Phone :: "string option"
  u_Age :: "go_int option"
  u_Status :: string
  u_CreatedAt :: gotime
  u_UpdatedAt :: gotime
  u_DeletedAt :: "gotime option"

text \<open>Go's \<open>domain.User{}\<close>.\<close>

definition zero_user :: user where
  "zero_user =
     \<lparr>u_UserId = 0, u_FirstName = '''', u_LastName = '''', u_Email = '''', u_Phone = None,
      u_Age = None, u_Status = '''', u_CreatedAt = zero_time, u_UpdatedAt = zero_time,
      u_DeletedAt = None\<rparr>"

definition UserStatusActive :: string where
  "UserStatusActive = ''ACTIVE''"

definition UserStatusInactive :: string where
  "UserStatusInactive = ''INACTIVE''"

definition UserStatusSuspended :: string where
  "UserStatusSuspended = ''SUSPENDED''"

lemmas status_defs = UserStatusActive_def UserStatusInactive_def UserStatusSuspended_def

definition IsValid :: "string \<Rightarrow> bool" where
  "IsValid u =
     (if u = UserStatusSuspended \<or> u = UserStatusActive \<or> u = UserStatusInactive then True
      else False)"

lemma IsValid_iff: "IsValid s \<longleftrightarrow> s \<in> {''ACTIVE'', ''INACTIVE'', ''SUSPENDED''}"
  by (auto simp: IsValid_def status_defs)

subsection \<open>Errors\<close>

text \<open>
  Errors below the repository: \<open>sql.ErrNoRows\<close>, a \<open>*pq.Error\<close> with its SQLSTATE code,
  or any other driver error (a deadline, a lost connection). Above it: the domain's
  sentinels, or a database error handed on.
\<close>

datatype db_error = ErrNoRows | PqError string | DriverError string

datatype domain_error =
    ErrUserNotFound
  | ErrEmailAlreadyExists
  | ErrInvalidStatus
  | DbError db_error

text \<open>
  \<open>err.Error()\<close> of the sentinels. The text of a database error goes to the log only, and
  is left empty.
\<close>

fun domain_error_text :: "domain_error \<Rightarrow> string" where
  "domain_error_text ErrUserNotFound = ''user not found''"
| "domain_error_text ErrEmailAlreadyExists = ''email already exists''"
| "domain_error_text ErrInvalidStatus = ''invalid user status''"
| "domain_error_text (DbError e) = ''''"

subsection \<open>Ports\<close>

type_synonym ('db, 'a) result = "'db \<times> (domain_error + 'a)"

record ('c, 'db) user_repository =
  repo_Create :: "'c \<Rightarrow> user \<Rightarrow> 'db \<Rightarrow> ('db, user) result"
  repo_GetByID :: "'c \<Rightarrow> uuid \<Rightarrow> 'db \<Rightarrow> ('db, user) result"
  repo_GetByEmail :: "'c \<Rightarrow> string \<Rightarrow> 'db \<Rightarrow> ('db, user) result"
  repo_List :: "'c \<Rightarrow> string option \<Rightarrow> go_int32 \<Rightarrow> go_int32 \<Rightarrow> 'db \<Rightarrow> ('db, user list) result"
  repo_ListAll :: "'c \<Rightarrow> string option \<Rightarrow> 'db \<Rightarrow> ('db, user list) result"
  repo_Update :: "'c \<Rightarrow> user \<Rightarrow> 'db \<Rightarrow> ('db, user) result"
  repo_Delete :: "'c \<Rightarrow> uuid \<Rightarrow> 'db \<Rightarrow> ('db, unit) result"

record ('c, 'db) user_service =
  svc_CreateUser :: "'c \<Rightarrow> string \<Rightarrow> string \<Rightarrow> string \<Rightarrow> string option \<Rightarrow> go_int option \<Rightarrow> string
     \<Rightarrow> 'db \<Rightarrow> ('db, user) result"
  svc_GetUserByID :: "'c \<Rightarrow> uuid \<Rightarrow> 'db \<Rightarrow> ('db, user) result"
  svc_GetUserByEmail :: "'c \<Rightarrow> string \<Rightarrow> 'db \<Rightarrow> ('db, user) result"
  svc_ListUsers :: "'c \<Rightarrow> string option \<Rightarrow> go_int32 \<Rightarrow> go_int32 \<Rightarrow> 'db \<Rightarrow> ('db, user list) result"
  svc_ListAllUsers :: "'c \<Rightarrow> 'db \<Rightarrow> ('db, user list) result"
  svc_UpdateUser :: "'c \<Rightarrow> user \<Rightarrow> 'db \<Rightarrow> ('db, user) result"
  svc_DeleteUser :: "'c \<Rightarrow> uuid \<Rightarrow> 'db \<Rightarrow> ('db, unit) result"

end
