(* ===== verification/User_Service.thy ===== *)
theory User_Service
  imports Domain
begin

text \<open>
  \<open>user-service/internal/service\<close> and the contracts of its two ports. The service is the
  repository with logging around it; \<open>NewService\<close> is a function from the repository
  port's value to the service port's value.

  The contract of \<open>ports.UserRepository\<close> is stated over an abstract view of the store,
  \<open>users db\<close>: the live users by id. \<open>good c\<close> says that the call \<open>c\<close> meets no
  failure below the repository, \<open>storable c u\<close> that the store accepts the data of
  \<open>u\<close>, \<open>text_ok c s\<close> that it accepts \<open>s\<close> as text, and \<open>fresh c db\<close> that the
  id the call would generate is new. The contract of \<open>ports.UserService\<close> is the same for
  the service's methods, and follows from the repository's.
\<close>

subsection \<open>The service\<close>

text \<open>The \<open>domain.User\<close> literal of \<open>CreateUser\<close>: the other fields are zero.\<close>

definition new_user ::
  "string \<Rightarrow> string \<Rightarrow> string \<Rightarrow> string option \<Rightarrow> go_int option \<Rightarrow> string \<Rightarrow> user" where
  "new_user firstName lastName email phone age status =
     zero_user\<lparr>u_FirstName := firstName, u_LastName := lastName, u_Email := email,
               u_Phone := phone, u_Age := age, u_Status := status\<rparr>"

definition service_CreateUser where
  "service_CreateUser repo c firstName lastName email phone age status db =
     (case repo_Create repo c (new_user firstName lastName email phone age status) db of
        (db', Inl err) \<Rightarrow> (db', Inl err)
      | (db', Inr created) \<Rightarrow> (db', Inr created))"

definition service_GetUserByID where
  "service_GetUserByID repo c i db =
     (case repo_GetByID repo c i db of
        (db', Inl err) \<Rightarrow> (db', Inl err)
      | (db', Inr u) \<Rightarrow> (db', Inr u))"

definition service_GetUserByEmail where
  "service_GetUserByEmail repo c email db =
     (case repo_GetByEmail repo c email db of
        (db', Inl err) \<Rightarrow> (db', Inl err)
      | (db', Inr u) \<Rightarrow> (db', Inr u))"

definition service_ListUsers where
  "service_ListUsers repo c status limit offset db =
     (case repo_List repo c status limit offset db of
        (db', Inl err) \<Rightarrow> (db', Inl err)
      | (db', Inr us) \<Rightarrow> (db', Inr us))"

definition service_ListAllUsers where
  "service_ListAllUsers repo c db =
     (case repo_ListAll repo c None db of
        (db', Inl err) \<Rightarrow> (db', Inl err)
      | (db', Inr us) \<Rightarrow> (db', Inr us))"

definition service_UpdateUser where
  "service_UpdateUser repo c u db =
     (case repo_Update repo c u db of
        (db', Inl err) \<Rightarrow> (db', Inl err)
      | (db', Inr updated) \<Rightarrow> (db', Inr updated))"

definition service_DeleteUser where
  "service_DeleteUser repo c i db =
     (case repo_Delete repo c i db of
        (db', Inl err) \<Rightarrow> (db', Inl err)
      | (db', Inr _) \<Rightarrow> (db', Inr ()))"

definition NewService :: "('c, 'db) user_repository \<Rightarrow> ('c, 'db) user_service" where
  "NewService repo =
     \<lparr>svc_CreateUser = service_CreateUser repo,
      svc_GetUserByID = service_GetUserByID repo,
      svc_GetUserByEmail = service_GetUserByEmail repo,
      svc_ListUsers = service_ListUsers repo,
      svc_ListAllUsers = service_ListAllUsers repo,
      svc_UpdateUser = service_UpdateUser repo,
      svc_DeleteUser = service_DeleteUser repo\<rparr>"

text \<open>Every method hands the repository's result on as it is.\<close>

lemma NewService_passes_on [rpc_simps]:
  "svc_CreateUser (NewService repo) c fn ln em ph ag st db =
     repo_Create repo c (new_user fn ln em ph ag st) db"
  "svc_GetUserByID (NewService repo) c i db = repo_GetByID repo c i db"
  "svc_GetUserByEmail (NewService repo) c em db = repo_GetByEmail repo c em db"
  "svc_ListUsers (NewService repo) c s l off db = repo_List repo c s l off db"
  "svc_ListAllUsers (NewService repo) c db = repo_ListAll repo c None db"
  "svc_UpdateUser (NewService repo) c u db = repo_Update repo c u db"
  "svc_DeleteUser (NewService repo) c i db = repo_Delete repo c i db"
  by (simp_all add: NewService_def service_CreateUser_def service_GetUserByID_def
      service_GetUserByEmail_def service_ListUsers_def service_ListAllUsers_def
      service_UpdateUser_def service_DeleteUser_def split: prod.split sum.split)

subsection \<open>The contracts\<close>

text \<open>The data an update or a create carries: everything but id and time stamps.\<close>

definition same_data :: "user \<Rightarrow> user \<Rightarrow> bool" where
  "same_data u v \<longleftrightarrow>
     u_FirstName u = u_FirstName v \<and> u_LastName u = u_LastName v \<and> u_Email u = u_Email v
     \<and> u_Phone u = u_Phone v \<and> u_Age u = u_Age v \<and> u_Status u = u_Status v"

definition email_free :: "(uuid \<rightharpoonup> user) \<Rightarrow> uuid \<Rightarrow> string \<Rightarrow> bool" where
  "email_free m i em \<longleftrightarrow> (\<forall>j v. m j = Some v \<and> j \<noteq> i \<longrightarrow> u_Email v \<noteq> em)"

definition status_selects :: "string option \<Rightarrow> user \<Rightarrow> bool" where
  "status_selects s u \<longleftrightarrow> (case s of None \<Rightarrow> True | Some x \<Rightarrow> u_Status u = x)"

text \<open>
  A full listing: each selected live user once, newest first. A page is a segment of a full
  listing.
\<close>

definition full_listing :: "(uuid \<rightharpoonup> user) \<Rightarrow> string option \<Rightarrow> user list \<Rightarrow> bool" where
  "full_listing m s us \<longleftrightarrow>
     set us = {u \<in> ran m. status_selects s u} \<and> distinct (map u_UserId us)
     \<and> sorted_wrt (\<lambda>a b. u_CreatedAt b \<le> u_CreatedAt a) us"

definition create_result where
  "create_result m u fresh m' res \<longleftrightarrow>
     (case res of
        Inl err \<Rightarrow> m' = m \<and> err = ErrEmailAlreadyExists
                   \<and> \<not> (fresh \<and> (\<forall>v\<in>ran m. u_Email v \<noteq> u_Email u))
      | Inr v \<Rightarrow> m (u_UserId v) = None \<and> m' = m(u_UserId v \<mapsto> v) \<and> same_data v u
                   \<and> u_DeletedAt v = None \<and> (\<forall>w\<in>ran m. u_Email w \<noteq> u_Email u))"

definition update_result where
  "update_result m u m' res \<longleftrightarrow>
     (case m (u_UserId u) of
        None \<Rightarrow> res = Inl ErrUserNotFound \<and> m' = m
      | Some old \<Rightarrow>
          if email_free m (u_UserId u) (u_Email u)
          then (\<exists>v. res = Inr v \<and> m' = m(u_UserId u \<mapsto> v) \<and> same_data v u
                  \<and> u_UserId v = u_UserId u \<and> u_CreatedAt v = u_CreatedAt old
                  \<and> u_DeletedAt v = None)
          else res = Inl ErrEmailAlreadyExists \<and> m' = m)"

definition delete_result where
  "delete_result m i m' res \<longleftrightarrow>
     (case m i of
        None \<Rightarrow> res = Inl ErrUserNotFound \<and> m' = m
      | Some _ \<Rightarrow> res = Inr () \<and> m' = m(i := None))"

definition email_result where
  "email_result m em res \<longleftrightarrow>
     (case res of
        Inr v \<Rightarrow> v \<in> ran m \<and> u_Email v = em
      | Inl err \<Rightarrow> err = ErrUserNotFound \<and> (\<forall>v\<in>ran m. u_Email v \<noteq> em))"

lemmas result_defs = create_result_def update_result_def delete_result_def email_result_def

locale user_store =
  fixes users :: "'db \<Rightarrow> uuid \<rightharpoonup> user"
    and inv :: "'db \<Rightarrow> bool"
    and good :: "'c \<Rightarrow> bool"
    and fresh :: "'c \<Rightarrow> 'db \<Rightarrow> bool"
    and storable :: "'c \<Rightarrow> user \<Rightarrow> bool"
    and text_ok :: "'c \<Rightarrow> string \<Rightarrow> bool"
  assumes inv_ids: "\<lbrakk>inv db; users db i = Some u\<rbrakk> \<Longrightarrow> u_UserId u = i"
    and inv_emails: "\<lbrakk>inv db; users db i = Some u; users db j = Some v; u_Email u = u_Email v\<rbrakk>
      \<Longrightarrow> i = j"
    and storable_data: "\<lbrakk>storable c u; same_data v u\<rbrakk> \<Longrightarrow> storable c v"

locale user_repository_contract = user_store users inv good fresh storable text_ok
  for users :: "'db \<Rightarrow> uuid \<rightharpoonup> user" and inv and good :: "'c \<Rightarrow> bool" and fresh and storable
    and text_ok +
  fixes repo :: "('c, 'db) user_repository"
  assumes repo_inv:
      "inv db \<Longrightarrow> inv (fst (repo_Create repo c u db))"
      "inv db \<Longrightarrow> inv (fst (repo_Update repo c u db))"
      "inv db \<Longrightarrow> inv (fst (repo_Delete repo c i db))"
    and repo_reads:
      "fst (repo_GetByID repo c i db) = db"
      "fst (repo_GetByEmail repo c em db) = db"
      "fst (repo_List repo c s l off db) = db"
      "fst (repo_ListAll repo c s db) = db"
    and repo_create: "\<lbrakk>good c; inv db; storable c u\<rbrakk> \<Longrightarrow>
      create_result (users db) u (fresh c db) (users (fst (repo_Create repo c u db)))
        (snd (repo_Create repo c u db))"
    and repo_get: "\<lbrakk>good c; inv db\<rbrakk> \<Longrightarrow>
      snd (repo_GetByID repo c i db) =
        (case users db i of None \<Rightarrow> Inl ErrUserNotFound | Some u \<Rightarrow> Inr u)"
    and repo_get_email: "\<lbrakk>good c; inv db; text_ok c em\<rbrakk> \<Longrightarrow>
      email_result (users db) em (snd (repo_GetByEmail repo c em db))"
    and repo_list_all: "\<lbrakk>good c; inv db; pred_option (text_ok c) s\<rbrakk> \<Longrightarrow>
      \<exists>us. snd (repo_ListAll repo c s db) = Inr us \<and> full_listing (users db) s us"
    and repo_list: "\<lbrakk>good c; inv db; pred_option (text_ok c) s; 0 \<le> sint l; 0 \<le> sint off\<rbrakk> \<Longrightarrow>
      \<exists>us. snd (repo_List repo c s l off db) = Inr (take (nat (sint l)) (drop (nat (sint off)) us))
         \<and> full_listing (users db) s us"
    and repo_update: "\<lbrakk>good c; inv db; storable c u\<rbrakk> \<Longrightarrow>
      update_result (users db) u (users (fst (repo_Update repo c u db)))
        (snd (repo_Update repo c u db))"
    and repo_delete: "\<lbrakk>good c; inv db\<rbrakk> \<Longrightarrow>
      delete_result (users db) i (users (fst (repo_Delete repo c i db)))
        (snd (repo_Delete repo c i db))"

locale user_service_contract = user_store users inv good fresh storable text_ok
  for users :: "'db \<Rightarrow> uuid \<rightharpoonup> user" and inv and good :: "'c \<Rightarrow> bool" and fresh and storable
    and text_ok +
  fixes svc :: "('c, 'db) user_service"
  assumes svc_inv:
      "inv db \<Longrightarrow> inv (fst (svc_CreateUser svc c fn ln em ph ag st db))"
      "inv db \<Longrightarrow> inv (fst (svc_UpdateUser svc c u db))"
      "inv db \<Longrightarrow> inv (fst (svc_DeleteUser svc c i db))"
    and svc_reads:
      "fst (svc_GetUserByID svc c i db) = db"
      "fst (svc_GetUserByEmail svc c em db) = db"
      "fst (svc_ListUsers svc c s l off db) = db"
      "fst (svc_ListAllUsers svc c db) = db"
    and svc_create: "\<lbrakk>good c; inv db; storable c (new_user fn ln em ph ag st)\<rbrakk> \<Longrightarrow>
      create_result (users db) (new_user fn ln em ph ag st) (fresh c db)
        (users (fst (svc_CreateUser svc c fn ln em ph ag st db)))
        (snd (svc_CreateUser svc c fn ln em ph ag st db))"
    and svc_get: "\<lbrakk>good c; inv db\<rbrakk> \<Longrightarrow>
      snd (svc_GetUserByID svc c i db) =
        (case users db i of None \<Rightarrow> Inl ErrUserNotFound | Some u \<Rightarrow> Inr u)"
    and svc_get_email: "\<lbrakk>good c; inv db; text_ok c em\<rbrakk> \<Longrightarrow>
      email_result (users db) em (snd (svc_GetUserByEmail svc c em db))"
    and svc_list_all: "\<lbrakk>good c; inv db\<rbrakk> \<Longrightarrow>
      \<exists>us. snd (svc_ListAllUsers svc c db) = Inr us \<and> full_listing (users db) None us"
    and svc_list: "\<lbrakk>good c; inv db; pred_option (text_ok c) s; 0 \<le> sint l; 0 \<le> sint off\<rbrakk> \<Longrightarrow>
      \<exists>us. snd (svc_ListUsers svc c s l off db)
             = Inr (take (nat (sint l)) (drop (nat (sint off)) us))
         \<and> full_listing (users db) s us"
    and svc_update: "\<lbrakk>good c; inv db; storable c u\<rbrakk> \<Longrightarrow>
      update_result (users db) u (users (fst (svc_UpdateUser svc c u db)))
        (snd (svc_UpdateUser svc c u db))"
    and svc_delete: "\<lbrakk>good c; inv db\<rbrakk> \<Longrightarrow>
      delete_result (users db) i (users (fst (svc_DeleteUser svc c i db)))
        (snd (svc_DeleteUser svc c i db))"

text \<open>The service meets its contract over every repository that meets the repository's.\<close>

sublocale user_repository_contract \<subseteq> service: user_service_contract users inv good fresh storable
    text_ok "NewService repo"
  by unfold_locales
    (simp_all add: rpc_simps repo_inv repo_reads repo_create repo_get repo_get_email
      repo_list_all repo_list repo_update repo_delete)

end
