(* ===== verification/Nats_Handler.thy ===== *)
theory Nats_Handler
  imports Validation User_Service
begin

text \<open>
  \<open>internal/adapters/natsadaptor/handler.go\<close>: the RPC handlers of the user service. A
  handler gets the message's data and answers with the effects it has on the connection, in
  order: \<open>Reply j\<close> for \<open>msg.Respond\<close>, \<open>Publish s j\<close> for \<open>nc.Publish\<close>. A failed
  send is only logged, so it has no part in the state; \<open>json.Marshal\<close> does not fail on
  these types. The uuid package is not under \<open>src/\<close>: \<open>uuid.Parse\<close> and \<open>String\<close>
  are fields of the handler's dependencies, next to the validator.
\<close>

record handler_deps =
  hd_validate :: validator
  hd_uuid_parse :: "string \<Rightarrow> uuid option"
  hd_uuid_string :: "uuid \<Rightarrow> string"

datatype effect = Reply json | Publish string json

subsection \<open>Helpers\<close>

definition rpcErr :: "string \<Rightarrow> string \<Rightarrow> rpc_error" where
  "rpcErr code message = \<lparr>re_Code = code, re_Message = message\<rparr>"

definition mapDomainErr :: "domain_error \<Rightarrow> rpc_error" where
  "mapDomainErr err =
     (if err = ErrUserNotFound then rpcErr ErrCodeNotFound (domain_error_text err)
      else if err = ErrEmailAlreadyExists then rpcErr ErrCodeAlreadyExists (domain_error_text err)
      else if err = ErrInvalidStatus then rpcErr ErrCodeValidation (domain_error_text err)
      else rpcErr ErrCodeInternal ''internal server error'')"

definition toDTO :: "handler_deps \<Rightarrow> user \<Rightarrow> user_dto" where
  "toDTO d u =
     \<lparr>dto_UserID = hd_uuid_string d (u_UserId u), dto_FirstName = u_FirstName u,
      dto_LastName = u_LastName u, dto_Email = u_Email u, dto_Phone = u_Phone u,
      dto_Age = u_Age u, dto_Status = u_Status u, dto_CreatedAt = rfc3339 (u_CreatedAt u),
      dto_UpdatedAt = rfc3339 (u_UpdatedAt u)\<rparr>"

definition user_error :: "rpc_error \<Rightarrow> effect" where
  "user_error e = Reply (enc_user_response \<lparr>resp_User = None, resp_Error = Some e\<rparr>)"

definition users_error :: "rpc_error \<Rightarrow> effect" where
  "users_error e = Reply (enc_users_response \<lparr>resps_Users = None, resps_Error = Some e\<rparr>)"

definition delete_error :: "rpc_error \<Rightarrow> effect" where
  "delete_error e = Reply (enc_delete_response \<lparr>dresp_Error = Some e\<rparr>)"

definition user_reply :: "user_dto \<Rightarrow> effect" where
  "user_reply u = Reply (enc_user_response \<lparr>resp_User = Some u, resp_Error = None\<rparr>)"

definition users_reply :: "user_dto list \<Rightarrow> effect" where
  "users_reply us = Reply (enc_users_response \<lparr>resps_Users = Some us, resps_Error = None\<rparr>)"

definition bad_format :: rpc_error where
  "bad_format = rpcErr ErrCodeValidation ''invalid request format''"

definition bad_uuid :: rpc_error where
  "bad_uuid = rpcErr ErrCodeValidation ''invalid UUID''"

subsection \<open>Handlers\<close>

type_synonym ('c, 'db) handler =
  "handler_deps \<Rightarrow> ('c, 'db) user_service \<Rightarrow> 'c \<Rightarrow> json option \<Rightarrow> 'db \<Rightarrow> 'db \<times> effect list"

definition handleCreate :: "('c, 'db) handler" where
  "handleCreate d svc c data db =
     (case unmarshal dec_create_request zero_create_request data of
        None \<Rightarrow> (db, [user_error bad_format])
      | Some req \<Rightarrow>
     (case hd_validate d (create_fields req) of
        Some msg \<Rightarrow> (db, [user_error (rpcErr ErrCodeValidation msg)])
      | None \<Rightarrow>
     (let status = (if cr_Status req \<noteq> [] then cr_Status req else UserStatusActive) in
      case svc_CreateUser svc c (cr_FirstName req) (cr_LastName req) (cr_Email req)
             (cr_Phone req) (cr_Age req) status db of
        (db', Inl err) \<Rightarrow> (db', [user_error (mapDomainErr err)])
      | (db', Inr user) \<Rightarrow>
          (let dto = toDTO d user in
           (db', [user_reply dto,
                  Publish SubjectUserCreated (enc_user_event \<lparr>evt_User = dto\<rparr>)])))))"

definition handleGetByID :: "('c, 'db) handler" where
  "handleGetByID d svc c data db =
     (case unmarshal dec_id_request \<lparr>ir_UserID = ''''\<rparr> data of
        None \<Rightarrow> (db, [user_error bad_format])
      | Some req \<Rightarrow>
     (case hd_validate d (id_fields req) of
        Some msg \<Rightarrow> (db, [user_error (rpcErr ErrCodeValidation msg)])
      | None \<Rightarrow>
     (case hd_uuid_parse d (ir_UserID req) of
        None \<Rightarrow> (db, [user_error bad_uuid])
      | Some i \<Rightarrow>
     (case svc_GetUserByID svc c i db of
        (db', Inl err) \<Rightarrow> (db', [user_error (mapDomainErr err)])
      | (db', Inr user) \<Rightarrow> (db', [user_reply (toDTO d user)])))))"

definition handleGetByEmail :: "('c, 'db) handler" where
  "handleGetByEmail d svc c data db =
     (case unmarshal dec_email_request \<lparr>er_Email = ''''\<rparr> data of
        None \<Rightarrow> (db, [user_error bad_format])
      | Some req \<Rightarrow>
     (case hd_validate d (email_fields req) of
        Some msg \<Rightarrow> (db, [user_error (rpcErr ErrCodeValidation msg)])
      | None \<Rightarrow>
     (case svc_GetUserByEmail svc c (er_Email req) db of
        (db', Inl err) \<Rightarrow> (db', [user_error (mapDomainErr err)])
      | (db', Inr user) \<Rightarrow> (db', [user_reply (toDTO d user)]))))"

definition handleList :: "('c, 'db) handler" where
  "handleList d svc c data db =
     (case unmarshal dec_list_request zero_list_request data of
        None \<Rightarrow> (db, [users_error bad_format])
      | Some req \<Rightarrow>
     (case hd_validate d (list_fields req) of
        Some msg \<Rightarrow> (db, [users_error (rpcErr ErrCodeValidation msg)])
      | None \<Rightarrow>
     (case svc_ListUsers svc c (lr_Status req) (lr_Limit req) (lr_Offset req) db of
        (db', Inl err) \<Rightarrow> (db', [users_error (mapDomainErr err)])
      | (db', Inr us) \<Rightarrow> (db', [users_reply (map (toDTO d) us)]))))"

definition handleListAll :: "('c, 'db) handler" where
  "handleListAll d svc c data db =
     (case svc_ListAllUsers svc c db of
        (db', Inl err) \<Rightarrow> (db', [users_error (mapDomainErr err)])
      | (db', Inr us) \<Rightarrow> (db', [users_reply (map (toDTO d) us)]))"

text \<open>The \<open>domain.User\<close> literal of \<open>handleUpdate\<close>.\<close>

definition update_user :: "uuid \<Rightarrow> update_request \<Rightarrow> user" where
  "update_user i req =
     (new_user (ur_FirstName req) (ur_LastName req) (ur_Email req) (ur_Phone req) (ur_Age req)
        (ur_Status req))\<lparr>u_UserId := i\<rparr>"

definition handleUpdate :: "('c, 'db) handler" where
  "handleUpdate d svc c data db =
     (case unmarshal dec_update_request zero_update_request data of
        None \<Rightarrow> (db, [user_error bad_format])
      | Some req \<Rightarrow>
     (case hd_validate d (update_fields req) of
        Some msg \<Rightarrow> (db, [user_error (rpcErr ErrCodeValidation msg)])
      | None \<Rightarrow>
     (case hd_uuid_parse d (ur_UserID req) of
        None \<Rightarrow> (db, [user_error bad_uuid])
      | Some i \<Rightarrow>
     (case svc_UpdateUser svc c (update_user i req) db of
        (db', Inl err) \<Rightarrow> (db', [user_error (mapDomainErr err)])
      | (db', Inr updated) \<Rightarrow>
          (let dto = toDTO d updated in
           (db', [user_reply dto,
                  Publish SubjectUserUpdated (enc_user_event \<lparr>evt_User = dto\<rparr>)]))))))"

text \<open>\<open>userclient.UserDeletedEvent(req)\<close>: the event carries the id as the request wrote it.\<close>

definition handleDelete :: "('c, 'db) handler" where
  "handleDelete d svc c data db =
     (case unmarshal dec_id_request \<lparr>ir_UserID = ''''\<rparr> data of
        None \<Rightarrow> (db, [delete_error bad_format])
      | Some req \<Rightarrow>
     (case hd_validate d (id_fields req) of
        Some msg \<Rightarrow> (db, [delete_error (rpcErr ErrCodeValidation msg)])
      | None \<Rightarrow>
     (case hd_uuid_parse d (ir_UserID req) of
        None \<Rightarrow> (db, [delete_error bad_uuid])
      | Some i \<Rightarrow>
     (case svc_DeleteUser svc c i db of
        (db', Inl err) \<Rightarrow> (db', [delete_error (mapDomainErr err)])
      | (db', Inr _) \<Rightarrow>
          (db', [Reply (enc_delete_response \<lparr>dresp_Error = None\<rparr>),
                 Publish SubjectUserDeleted
                   (enc_deleted_event \<lparr>evt_UserID = ir_UserID req\<rparr>)])))))"

subsection \<open>Subscriptions\<close>

definition handler_entries :: "(string \<times> ('c, 'db) handler) list" where
  "handler_entries =
     [(SubjectCreateUser, handleCreate),
      (SubjectGetUserByID, handleGetByID),
      (SubjectGetUserByEmail, handleGetByEmail),
      (SubjectListUsers, handleList),
      (SubjectListAllUsers, handleListAll),
      (SubjectUpdateUser, handleUpdate),
      (SubjectDeleteUser, handleDelete)]"

text \<open>
  \<open>Subscribe\<close>: \<open>nc\<close> gives the connection's answer for a subject, the error text or
  \<open>None\<close>. The subscriptions made before an error stay in \<open>h.subs\<close>. \<open>Stop\<close> tries every
  subscription, and goes on after an error.
\<close>

fun subscribe_all ::
  "(string \<Rightarrow> string option) \<Rightarrow> (string \<times> 'h) list \<Rightarrow> (string \<times> 'h) list
     \<Rightarrow> (string \<times> 'h) list \<times> string option" where
  "subscribe_all nc [] subs = (subs, None)"
| "subscribe_all nc (e # es) subs =
     (case nc (fst e) of
        Some err \<Rightarrow> (subs, Some err)
      | None \<Rightarrow> subscribe_all nc es (subs @ [e]))"

definition handler_Subscribe ::
  "(string \<Rightarrow> string option) \<Rightarrow> string option
     \<Rightarrow> (string \<times> ('c, 'db) handler) list \<times> string option" where
  "handler_Subscribe nc flush =
     (case subscribe_all nc handler_entries [] of
        (subs, Some err) \<Rightarrow> (subs, Some err)
      | (subs, None) \<Rightarrow> (subs, flush))"

definition handler_Stop :: "(string \<Rightarrow> string option) \<Rightarrow> (string \<times> 'h) list \<Rightarrow> string list" where
  "handler_Stop unsub subs = filter (\<lambda>s. unsub s = None) (map fst subs)"

text \<open>A message on a subject goes to the handler subscribed to it, if there is one.\<close>

definition deliver ::
  "(string \<times> ('c, 'db) handler) list \<Rightarrow> handler_deps \<Rightarrow> ('c, 'db) user_service \<Rightarrow> 'c \<Rightarrow> string
     \<Rightarrow> json option \<Rightarrow> 'db \<Rightarrow> 'db \<times> effect list" where
  "deliver subs d svc c subject data db =
     (case map_of subs subject of
        None \<Rightarrow> (db, [])
      | Some h \<Rightarrow> h d svc c data db)"

subsection \<open>Which effects a request has\<close>

definition user_exchange :: "(user_dto \<Rightarrow> effect list) \<Rightarrow> effect list \<Rightarrow> bool" where
  "user_exchange events es \<longleftrightarrow>
     (\<exists>e. es = [user_error e]) \<or> (\<exists>u. es = user_reply u # events u)"

definition users_exchange :: "effect list \<Rightarrow> bool" where
  "users_exchange es \<longleftrightarrow> (\<exists>e. es = [users_error e]) \<or> (\<exists>us. es = [users_reply us])"

definition delete_exchange :: "effect list \<Rightarrow> bool" where
  "delete_exchange es \<longleftrightarrow>
     (\<exists>e. es = [delete_error e])
     \<or> (\<exists>i. es = [Reply (enc_delete_response \<lparr>dresp_Error = None\<rparr>),
                 Publish SubjectUserDeleted (enc_deleted_event \<lparr>evt_UserID = i\<rparr>)])"

text \<open>
  The protocol of each subject: one reply, sent first, and one event after the reply of a
  mutation that succeeded. The event of a create or an update carries the user of the reply.
\<close>

definition exchange :: "string \<Rightarrow> effect list \<Rightarrow> bool" where
  "exchange s es \<longleftrightarrow>
     (if s = SubjectCreateUser
      then user_exchange (\<lambda>u. [Publish SubjectUserCreated (enc_user_event \<lparr>evt_User = u\<rparr>)]) es
      else if s = SubjectUpdateUser
      then user_exchange (\<lambda>u. [Publish SubjectUserUpdated (enc_user_event \<lparr>evt_User = u\<rparr>)]) es
      else if s = SubjectDeleteUser then delete_exchange es
      else if s = SubjectGetUserByID \<or> s = SubjectGetUserByEmail
      then user_exchange (\<lambda>u. []) es
      else if s = SubjectListUsers \<or> s = SubjectListAllUsers then users_exchange es
      else es = [])"

lemmas exchange_defs = exchange_def user_exchange_def users_exchange_def delete_exchange_def

lemmas handler_defs = handleCreate_def handleGetByID_def handleGetByEmail_def handleList_def
  handleListAll_def handleUpdate_def handleDelete_def

lemma deliver_entries [rpc_simps]:
  "deliver handler_entries d svc c SubjectCreateUser data db = handleCreate d svc c data db"
  "deliver handler_entries d svc c SubjectGetUserByID data db = handleGetByID d svc c data db"
  "deliver handler_entries d svc c SubjectGetUserByEmail data db = handleGetByEmail d svc c data db"
  "deliver handler_entries d svc c SubjectListUsers data db = handleList d svc c data db"
  "deliver handler_entries d svc c SubjectListAllUsers data db = handleListAll d svc c data db"
  "deliver handler_entries d svc c SubjectUpdateUser data db = handleUpdate d svc c data db"
  "deliver handler_entries d svc c SubjectDeleteUser data db = handleDelete d svc c data db"
  by (simp_all add: deliver_def handler_entries_def subject_defs)

abbreviation rpc_subjects :: "string set" where
  "rpc_subjects \<equiv>
     {SubjectCreateUser, SubjectGetUserByID, SubjectGetUserByEmail, SubjectListUsers,
      SubjectListAllUsers, SubjectUpdateUser, SubjectDeleteUser}"

lemma deliver_unknown [rpc_simps]:
  "s \<notin> rpc_subjects \<Longrightarrow> deliver handler_entries d svc c s data db = (db, [])"
  by (simp add: deliver_def handler_entries_def)

lemma subject_cases:
  obtains "s = SubjectCreateUser" | "s = SubjectGetUserByID" | "s = SubjectGetUserByEmail"
  | "s = SubjectListUsers" | "s = SubjectListAllUsers" | "s = SubjectUpdateUser"
  | "s = SubjectDeleteUser" | "s \<notin> rpc_subjects"
  by auto

lemma handler_effects:
  "user_exchange (\<lambda>u. [Publish SubjectUserCreated (enc_user_event \<lparr>evt_User = u\<rparr>)])
     (snd (handleCreate d svc c data db))"
  "user_exchange (\<lambda>u. [Publish SubjectUserUpdated (enc_user_event \<lparr>evt_User = u\<rparr>)])
     (snd (handleUpdate d svc c data db))"
  "user_exchange (\<lambda>u. []) (snd (handleGetByID d svc c data db))"
  "user_exchange (\<lambda>u. []) (snd (handleGetByEmail d svc c data db))"
  "users_exchange (snd (handleList d svc c data db))"
  "users_exchange (snd (handleListAll d svc c data db))"
  "delete_exchange (snd (handleDelete d svc c data db))"
  by (auto simp: handler_defs user_exchange_def users_exchange_def delete_exchange_def Let_def
      split: option.split prod.split sum.split)

lemma exchange_simps [rpc_simps]:
  "exchange SubjectCreateUser es =
     user_exchange (\<lambda>u. [Publish SubjectUserCreated (enc_user_event \<lparr>evt_User = u\<rparr>)]) es"
  "exchange SubjectUpdateUser es =
     user_exchange (\<lambda>u. [Publish SubjectUserUpdated (enc_user_event \<lparr>evt_User = u\<rparr>)]) es"
  "exchange SubjectDeleteUser es = delete_exchange es"
  "exchange SubjectGetUserByID es = user_exchange (\<lambda>u. []) es"
  "exchange SubjectGetUserByEmail es = user_exchange (\<lambda>u. []) es"
  "exchange SubjectListUsers es = users_exchange es"
  "exchange SubjectListAllUsers es = users_exchange es"
  "s \<notin> rpc_subjects \<Longrightarrow> exchange s es = (es = [])"
  by (simp_all add: exchange_def subject_defs)

lemma deliver_exchange:
  "exchange s (snd (deliver handler_entries d svc c s data db))"
  by (cases s rule: subject_cases) (simp_all add: rpc_simps handler_effects)

subsection \<open>Error replies and reads\<close>

text \<open>An error as the reply type of a subject carries it.\<close>


definition error_reply :: "string \<Rightarrow> rpc_error \<Rightarrow> effect" where
  "error_reply s e =
     (if s = SubjectDeleteUser then delete_error e
      else if s = SubjectListUsers \<or> s = SubjectListAllUsers then users_error e
      else user_error e)"

lemma error_reply_simps [rpc_simps]:
  "error_reply SubjectCreateUser e = user_error e"
  "error_reply SubjectUpdateUser e = user_error e"
  "error_reply SubjectGetUserByID e = user_error e"
  "error_reply SubjectGetUserByEmail e = user_error e"
  "error_reply SubjectListUsers e = users_error e"
  "error_reply SubjectListAllUsers e = users_error e"
  "error_reply SubjectDeleteUser e = delete_error e"
  by (simp_all add: error_reply_def subject_defs)

lemma handler_reads:
  assumes "\<And>i. fst (svc_GetUserByID svc c i db) = db"
    and "\<And>em. fst (svc_GetUserByEmail svc c em db) = db"
    and "\<And>st l off. fst (svc_ListUsers svc c st l off db) = db"
    and "fst (svc_ListAllUsers svc c db) = db"
  shows "fst (handleGetByID d svc c data db) = db" "fst (handleGetByEmail d svc c data db) = db"
    "fst (handleList d svc c data db) = db" "fst (handleListAll d svc c data db) = db"
proof -
  note st = fst_eq_pair
  show "fst (handleGetByID d svc c data db) = db"
    by (auto simp: handleGetByID_def dest: st [OF _ assms(1)] split: option.split prod.split sum.split)
  show "fst (handleGetByEmail d svc c data db) = db"
    by (auto simp: handleGetByEmail_def dest: st [OF _ assms(2)]
        split: option.split prod.split sum.split)
  show "fst (handleList d svc c data db) = db"
    by (auto simp: handleList_def dest: st [OF _ assms(3)] split: option.split prod.split sum.split)
  show "fst (handleListAll d svc c data db) = db"
    by (auto simp: handleListAll_def dest: st [OF _ assms(4)] split: option.split prod.split sum.split)
qed

end
