(* ===== verification/Service_Spec.thy ===== *)
theory Service_Spec
  imports Nats_Handler Cache_Sync
begin

text \<open>
  What the user service promises its clients, without messages, validation and SQL: a finite
  map from ids to users and seven operations on it, as the relation \<open>serve\<close>. The lemmas of
  the contract's context show that the NATS handlers implement it over every
  \<open>UserService\<close> that meets its contract, and that the events they publish describe the
  change of the map: applied to the view a client has of the old map, they give its view of
  the new one.
\<close>

datatype operation =
    CreateOp create_request
  | GetOp string
  | EmailOp string
  | ListOp list_request
  | ListAllOp
  | UpdateOp update_request
  | DeleteOp string

datatype answer =
    UserAnswer user
  | UsersAnswer "user list"
  | Done
  | Failed domain_error

text \<open>The user a create request asks for.\<close>

definition created_user :: "create_request \<Rightarrow> user" where
  "created_user q =
     new_user (cr_FirstName q) (cr_LastName q) (cr_Email q) (cr_Phone q) (cr_Age q)
       (if cr_Status q \<noteq> [] then cr_Status q else UserStatusActive)"

inductive serve ::
  "(string \<Rightarrow> uuid option) \<Rightarrow> bool \<Rightarrow> (uuid \<rightharpoonup> user) \<Rightarrow> operation \<Rightarrow> answer \<Rightarrow> (uuid \<rightharpoonup> user)
     \<Rightarrow> bool"
  for parse fresh where
  create: "\<lbrakk>m (u_UserId v) = None; \<forall>w\<in>ran m. u_Email w \<noteq> cr_Email q;
      same_data v (created_user q); u_DeletedAt v = None\<rbrakk> \<Longrightarrow>
    serve parse fresh m (CreateOp q) (UserAnswer v) (m(u_UserId v \<mapsto> v))"
| create_taken: "(\<exists>w\<in>ran m. u_Email w = cr_Email q) \<or> \<not> fresh \<Longrightarrow>
    serve parse fresh m (CreateOp q) (Failed ErrEmailAlreadyExists) m"
| get: "\<lbrakk>parse s = Some i; m i = Some u\<rbrakk> \<Longrightarrow> serve parse fresh m (GetOp s) (UserAnswer u) m"
| get_none: "\<lbrakk>parse s = Some i; m i = None\<rbrakk> \<Longrightarrow>
    serve parse fresh m (GetOp s) (Failed ErrUserNotFound) m"
| email: "\<lbrakk>u \<in> ran m; u_Email u = em\<rbrakk> \<Longrightarrow> serve parse fresh m (EmailOp em) (UserAnswer u) m"
| email_none: "\<forall>u\<in>ran m. u_Email u \<noteq> em \<Longrightarrow>
    serve parse fresh m (EmailOp em) (Failed ErrUserNotFound) m"
| list_page: "full_listing m (lr_Status q) us \<Longrightarrow>
    serve parse fresh m (ListOp q)
      (UsersAnswer (take (nat (sint (lr_Limit q))) (drop (nat (sint (lr_Offset q))) us))) m"
| list_all: "full_listing m None us \<Longrightarrow> serve parse fresh m ListAllOp (UsersAnswer us) m"
| update: "\<lbrakk>parse (ur_UserID q) = Some i; m i = Some old; email_free m i (ur_Email q);
      same_data v (update_user i q); u_UserId v = i; u_CreatedAt v = u_CreatedAt old;
      u_DeletedAt v = None\<rbrakk> \<Longrightarrow>
    serve parse fresh m (UpdateOp q) (UserAnswer v) (m(i \<mapsto> v))"
| update_taken: "\<lbrakk>parse (ur_UserID q) = Some i; m i = Some old; \<not> email_free m i (ur_Email q)\<rbrakk> \<Longrightarrow>
    serve parse fresh m (UpdateOp q) (Failed ErrEmailAlreadyExists) m"
| update_none: "\<lbrakk>parse (ur_UserID q) = Some i; m i = None\<rbrakk> \<Longrightarrow>
    serve parse fresh m (UpdateOp q) (Failed ErrUserNotFound) m"
| delete: "\<lbrakk>parse s = Some i; m i = Some u\<rbrakk> \<Longrightarrow> serve parse fresh m (DeleteOp s) Done (m(i := None))"
| delete_none: "\<lbrakk>parse s = Some i; m i = None\<rbrakk> \<Longrightarrow>
    serve parse fresh m (DeleteOp s) (Failed ErrUserNotFound) m"

inductive_cases serve_CreateE: "serve parse fresh m (CreateOp q) a m'"
inductive_cases serve_GetE: "serve parse fresh m (GetOp s) a m'"
inductive_cases serve_EmailE: "serve parse fresh m (EmailOp s) a m'"
inductive_cases serve_ListE: "serve parse fresh m (ListOp q) a m'"
inductive_cases serve_ListAllE: "serve parse fresh m ListAllOp a m'"
inductive_cases serve_UpdateE: "serve parse fresh m (UpdateOp q) a m'"
inductive_cases serve_DeleteE: "serve parse fresh m (DeleteOp s) a m'"

text \<open>The map keeps the store's invariant: users under their ids, e-mail addresses unique.\<close>

definition user_map_ok :: "(uuid \<rightharpoonup> user) \<Rightarrow> bool" where
  "user_map_ok m \<longleftrightarrow>
     (\<forall>i u. m i = Some u \<longrightarrow> u_UserId u = i \<and> u_DeletedAt u = None)
     \<and> (\<forall>i j u v. m i = Some u \<and> m j = Some v \<and> u_Email u = u_Email v \<longrightarrow> i = j)"

lemma serve_user_map_ok: "\<lbrakk>serve parse fresh m oper a m'; user_map_ok m\<rbrakk> \<Longrightarrow> user_map_ok m'"
proof (induction rule: serve.induct)
  case (create m v q)
  have "u_Email v = cr_Email q"
    using create.hyps(3) by (simp add: same_data_def created_user_def new_user_def)
  then have new: "u_Email w \<noteq> u_Email v" if "m i = Some w" for i w
    using create.hyps(2) that by (auto simp: ran_def)
  show ?case
    using create.prems create.hyps(4) new new [symmetric] unfolding user_map_ok_def
    by (auto split: if_splits)
next
  case (update q i m old v)
  have "u_Email v = ur_Email q"
    using update.hyps(4) by (simp add: same_data_def update_user_def new_user_def)
  then have new: "u_Email w \<noteq> u_Email v" if "m j = Some w" "j \<noteq> i" for j w
    using update.hyps(3) that by (auto simp: email_free_def)
  show ?case
    using update.prems update.hyps(5,7) new new [symmetric] unfolding user_map_ok_def
    by (auto split: if_splits)
qed (auto simp: user_map_ok_def split: if_splits)

subsection \<open>Operations as messages\<close>

fun op_subject :: "operation \<Rightarrow> string" where
  "op_subject (CreateOp q) = SubjectCreateUser"
| "op_subject (GetOp s) = SubjectGetUserByID"
| "op_subject (EmailOp em) = SubjectGetUserByEmail"
| "op_subject (ListOp q) = SubjectListUsers"
| "op_subject ListAllOp = SubjectListAllUsers"
| "op_subject (UpdateOp q) = SubjectUpdateUser"
| "op_subject (DeleteOp s) = SubjectDeleteUser"

fun op_payload :: "operation \<Rightarrow> json" where
  "op_payload (CreateOp q) = enc_create_request q"
| "op_payload (GetOp s) = enc_id_request \<lparr>ir_UserID = s\<rparr>"
| "op_payload (EmailOp em) = enc_email_request \<lparr>er_Email = em\<rparr>"
| "op_payload (ListOp q) = enc_list_request q"
| "op_payload ListAllOp = JObj []"
| "op_payload (UpdateOp q) = enc_update_request q"
| "op_payload (DeleteOp s) = enc_id_request \<lparr>ir_UserID = s\<rparr>"

text \<open>The validator and the uuid parser let the request through.\<close>

fun accepted :: "handler_deps \<Rightarrow> operation \<Rightarrow> bool" where
  "accepted d (CreateOp q) = (hd_validate d (create_fields q) = None)"
| "accepted d (GetOp s) =
     (hd_validate d (id_fields \<lparr>ir_UserID = s\<rparr>) = None \<and> hd_uuid_parse d s \<noteq> None)"
| "accepted d (EmailOp em) = (hd_validate d (email_fields \<lparr>er_Email = em\<rparr>) = None)"
| "accepted d (ListOp q) = (hd_validate d (list_fields q) = None)"
| "accepted d ListAllOp = True"
| "accepted d (UpdateOp q) =
     (hd_validate d (update_fields q) = None \<and> hd_uuid_parse d (ur_UserID q) \<noteq> None)"
| "accepted d (DeleteOp s) =
     (hd_validate d (id_fields \<lparr>ir_UserID = s\<rparr>) = None \<and> hd_uuid_parse d s \<noteq> None)"

text \<open>The operation a message asks for, \<open>None\<close> when its data does not decode.\<close>

definition decoded :: "string \<Rightarrow> json option \<Rightarrow> operation option" where
  "decoded s data =
     (if s = SubjectCreateUser
      then map_option CreateOp (unmarshal dec_create_request zero_create_request data)
      else if s = SubjectGetUserByID
      then map_option (GetOp \<circ> ir_UserID) (unmarshal dec_id_request \<lparr>ir_UserID = ''''\<rparr> data)
      else if s = SubjectGetUserByEmail
      then map_option (EmailOp \<circ> er_Email) (unmarshal dec_email_request \<lparr>er_Email = ''''\<rparr> data)
      else if s = SubjectListUsers
      then map_option ListOp (unmarshal dec_list_request zero_list_request data)
      else if s = SubjectListAllUsers then Some ListAllOp
      else if s = SubjectUpdateUser
      then map_option UpdateOp (unmarshal dec_update_request zero_update_request data)
      else if s = SubjectDeleteUser
      then map_option (DeleteOp \<circ> ir_UserID) (unmarshal dec_id_request \<lparr>ir_UserID = ''''\<rparr> data)
      else None)"

lemma decoded_eqs:
  "decoded SubjectCreateUser data =
     map_option CreateOp (unmarshal dec_create_request zero_create_request data)"
  "decoded SubjectGetUserByID data =
     map_option (GetOp \<circ> ir_UserID) (unmarshal dec_id_request \<lparr>ir_UserID = ''''\<rparr> data)"
  "decoded SubjectGetUserByEmail data =
     map_option (EmailOp \<circ> er_Email) (unmarshal dec_email_request \<lparr>er_Email = ''''\<rparr> data)"
  "decoded SubjectListUsers data =
     map_option ListOp (unmarshal dec_list_request zero_list_request data)"
  "decoded SubjectListAllUsers data = Some ListAllOp"
  "decoded SubjectUpdateUser data =
     map_option UpdateOp (unmarshal dec_update_request zero_update_request data)"
  "decoded SubjectDeleteUser data =
     map_option (DeleteOp \<circ> ir_UserID) (unmarshal dec_id_request \<lparr>ir_UserID = ''''\<rparr> data)"
  by (simp_all add: decoded_def subject_defs)

lemma decoded_payload [rpc_simps]: "decoded (op_subject oper) (Some (op_payload oper)) = Some oper"
  by (cases oper) (simp_all add: decoded_def wire_simps subject_defs)

lemma decoded_subject:
  "decoded s data = Some oper \<Longrightarrow> s = op_subject oper"
  by (auto simp: decoded_def split: if_splits)

lemma id_request_eta [simp]: "\<lparr>ir_UserID = ir_UserID q\<rparr> = q"
  by (cases q) simp

lemma email_request_eta [simp]: "\<lparr>er_Email = er_Email q\<rparr> = q"
  by (cases q) simp

lemma decoded_CreateOp [simp]: "decoded SubjectCreateUser data = Some (CreateOp q) \<longleftrightarrow>
    unmarshal dec_create_request zero_create_request data = Some q"
  by (auto simp: decoded_eqs)

lemma decoded_GetOp [simp]: "decoded SubjectGetUserByID data = Some (GetOp i) \<longleftrightarrow>
    unmarshal dec_id_request \<lparr>ir_UserID = ''''\<rparr> data = Some \<lparr>ir_UserID = i\<rparr>"
  by (auto simp: decoded_eqs)

lemma decoded_EmailOp [simp]: "decoded SubjectGetUserByEmail data = Some (EmailOp em) \<longleftrightarrow>
    unmarshal dec_email_request \<lparr>er_Email = ''''\<rparr> data = Some \<lparr>er_Email = em\<rparr>"
  by (auto simp: decoded_eqs)

lemma decoded_ListOp [simp]: "decoded SubjectListUsers data = Some (ListOp q) \<longleftrightarrow>
    unmarshal dec_list_request zero_list_request data = Some q"
  by (auto simp: decoded_eqs)

lemma decoded_UpdateOp [simp]: "decoded SubjectUpdateUser data = Some (UpdateOp q) \<longleftrightarrow>
    unmarshal dec_update_request zero_update_request data = Some q"
  by (auto simp: decoded_eqs)

lemma decoded_DeleteOp [simp]: "decoded SubjectDeleteUser data = Some (DeleteOp i) \<longleftrightarrow>
    unmarshal dec_id_request \<lparr>ir_UserID = ''''\<rparr> data = Some \<lparr>ir_UserID = i\<rparr>"
  by (auto simp: decoded_eqs)

lemmas decoded_simps = decoded_CreateOp decoded_GetOp decoded_EmailOp decoded_ListOp
  decoded_UpdateOp decoded_DeleteOp

text \<open>A message on one of the subjects that does not decode or is not let through.\<close>

definition refused :: "handler_deps \<Rightarrow> string \<Rightarrow> json option \<Rightarrow> bool" where
  "refused d s data \<longleftrightarrow>
     s \<in> rpc_subjects
     \<and> (case decoded s data of None \<Rightarrow> True | Some oper \<Rightarrow> \<not> accepted d oper)"

lemma deliver_refused:
  assumes "refused d s data"
  shows "\<exists>m. deliver handler_entries d svc c s data db
           = (db, [error_reply s (rpcErr ErrCodeValidation m)])"
proof (cases s rule: subject_cases)
  case 8
  then show ?thesis using assms by (simp add: refused_def)
qed (use assms in \<open>auto simp: refused_def rpc_simps decoded_eqs handler_defs bad_format_def
      bad_uuid_def split: option.splits\<close>)

text \<open>The event a mutation publishes, and all the effects of an answer.\<close>

fun op_event :: "handler_deps \<Rightarrow> operation \<Rightarrow> answer \<Rightarrow> (string \<times> json) list" where
  "op_event d (CreateOp q) (UserAnswer u) =
     [(SubjectUserCreated, enc_user_event \<lparr>evt_User = toDTO d u\<rparr>)]"
| "op_event d (UpdateOp q) (UserAnswer u) =
     [(SubjectUserUpdated, enc_user_event \<lparr>evt_User = toDTO d u\<rparr>)]"
| "op_event d (DeleteOp s) Done =
     [(SubjectUserDeleted, enc_deleted_event \<lparr>evt_UserID = s\<rparr>)]"
| "op_event d _ _ = []"

lemma op_event_length: "length (op_event d oper a) \<le> 1"
  by (cases "(d, oper, a)" rule: op_event.cases) simp_all

fun op_reply :: "handler_deps \<Rightarrow> operation \<Rightarrow> answer \<Rightarrow> effect" where
  "op_reply d oper (UserAnswer u) = user_reply (toDTO d u)"
| "op_reply d oper (UsersAnswer us) = users_reply (map (toDTO d) us)"
| "op_reply d oper Done = Reply (enc_delete_response \<lparr>dresp_Error = None\<rparr>)"
| "op_reply d oper (Failed err) = error_reply (op_subject oper) (mapDomainErr err)"

definition op_effects :: "handler_deps \<Rightarrow> operation \<Rightarrow> answer \<Rightarrow> effect list" where
  "op_effects d oper a = op_reply d oper a # map (\<lambda>(s, j). Publish s j) (op_event d oper a)"

lemmas op_effects_simps = op_effects_def rpc_simps

text \<open>
  The call of the service that an accepted operation comes to, and its result as an answer: the
  arguments are those the handlers pass, the id is the parsed one.
\<close>

fun answer_of :: "('a \<Rightarrow> answer) \<Rightarrow> 'db \<times> (domain_error + 'a) \<Rightarrow> 'db \<times> answer" where
  "answer_of f (db, Inl err) = (db, Failed err)"
| "answer_of f (db, Inr x) = (db, f x)"

fun service_answer ::
  "handler_deps \<Rightarrow> ('c, 'db) user_service \<Rightarrow> 'c \<Rightarrow> operation \<Rightarrow> 'db \<Rightarrow> 'db \<times> answer" where
  "service_answer d svc c (CreateOp q) db = answer_of UserAnswer
     (svc_CreateUser svc c (cr_FirstName q) (cr_LastName q) (cr_Email q) (cr_Phone q) (cr_Age q)
       (if cr_Status q \<noteq> [] then cr_Status q else UserStatusActive) db)"
| "service_answer d svc c (GetOp s) db = answer_of UserAnswer
     (svc_GetUserByID svc c (the (hd_uuid_parse d s)) db)"
| "service_answer d svc c (EmailOp em) db = answer_of UserAnswer (svc_GetUserByEmail svc c em db)"
| "service_answer d svc c (ListOp q) db = answer_of UsersAnswer
     (svc_ListUsers svc c (lr_Status q) (lr_Limit q) (lr_Offset q) db)"
| "service_answer d svc c ListAllOp db = answer_of UsersAnswer (svc_ListAllUsers svc c db)"
| "service_answer d svc c (UpdateOp q) db = answer_of UserAnswer
     (svc_UpdateUser svc c (update_user (the (hd_uuid_parse d (ur_UserID q))) q) db)"
| "service_answer d svc c (DeleteOp s) db = answer_of (\<lambda>_. Done)
     (svc_DeleteUser svc c (the (hd_uuid_parse d s)) db)"

text \<open>
  A handler makes that one call, and what it sends is decided by the call's result; this needs no
  contract of the service.
\<close>

lemma deliver_answers:
  assumes "decoded s data = Some oper" and "accepted d oper"
  shows "deliver handler_entries d svc c s data db =
    (case service_answer d svc c oper db of (db', a) \<Rightarrow> (db', op_effects d oper a))"
proof -
  have s: "s = op_subject oper" using assms(1) by (rule decoded_subject)
  show ?thesis
    using assms unfolding s
    by (cases oper)
      (auto simp: rpc_simps handler_defs Let_def op_effects_def split: prod.split sum.split)
qed

fun mutation :: "operation \<Rightarrow> bool" where
  "mutation (CreateOp q) = True"
| "mutation (UpdateOp q) = True"
| "mutation (DeleteOp s) = True"
| "mutation _ = False"

lemma answer_of_cases: "answer_of f r = (db', a) \<Longrightarrow> (\<exists>x. a = f x) \<or> (\<exists>err. a = Failed err)"
  by (cases "(f, r)" rule: answer_of.cases) auto

lemma event_after_success:
  assumes "service_answer d svc c oper db = (db', a)"
  shows "op_event d oper a \<noteq> [] \<longleftrightarrow> mutation oper \<and> (\<forall>err. a \<noteq> Failed err)"
  using assms by (cases oper) (auto dest!: answer_of_cases)

subsection \<open>The handlers implement the specification\<close>

text \<open>The store below takes the request's data.\<close>

fun suitable ::
  "('c \<Rightarrow> user \<Rightarrow> bool) \<Rightarrow> ('c \<Rightarrow> string \<Rightarrow> bool) \<Rightarrow> handler_deps \<Rightarrow> 'c \<Rightarrow> operation \<Rightarrow> bool" where
  "suitable storable text_ok d c (CreateOp q) \<longleftrightarrow> storable c (created_user q)"
| "suitable storable text_ok d c (UpdateOp q) \<longleftrightarrow>
     (\<forall>i. hd_uuid_parse d (ur_UserID q) = Some i \<longrightarrow> storable c (update_user i q))"
| "suitable storable text_ok d c (EmailOp em) \<longleftrightarrow> text_ok c em"
| "suitable storable text_ok d c (ListOp q) \<longleftrightarrow>
     pred_option (text_ok c) (lr_Status q) \<and> 0 \<le> sint (lr_Limit q) \<and> 0 \<le> sint (lr_Offset q)"
| "suitable storable text_ok d c _ \<longleftrightarrow> True"

context user_service_contract
begin

abbreviation served where
  "served d c db oper r \<equiv>
     (\<exists>a. snd r = op_effects d oper a
        \<and> serve (hd_uuid_parse d) (fresh c db) (users db) oper a (users (fst r)))"

lemma served_create:
  assumes "good c" "inv db" "decoded SubjectCreateUser data = Some (CreateOp q)"
    "accepted d (CreateOp q)" "suitable storable text_ok d c (CreateOp q)"
  shows "served d c db (CreateOp q) (handleCreate d svc c data db)"
proof -
  let ?st = "if cr_Status q \<noteq> [] then cr_Status q else UserStatusActive"
  let ?r = "svc_CreateUser svc c (cr_FirstName q) (cr_LastName q) (cr_Email q) (cr_Phone q)
    (cr_Age q) ?st db"
  obtain db' x where r: "?r = (db', x)" by fastforce
  have em: "u_Email (created_user q) = cr_Email q" by (simp add: created_user_def new_user_def)
  have "create_result (users db) (created_user q) (fresh c db) (users (fst ?r)) (snd ?r)"
    unfolding created_user_def using assms(1,2,5)
    by (intro svc_create) (simp_all add: created_user_def)
  then have res: "create_result (users db) (created_user q) (fresh c db) (users db') x"
    using r by simp
  obtain a where "serve (hd_uuid_parse d) (fresh c db) (users db) (CreateOp q) a (users db')"
    and "a = (case x of Inl err \<Rightarrow> Failed err | Inr v \<Rightarrow> UserAnswer v)"
    using res serve.create [where parse = "hd_uuid_parse d" and fresh = "fresh c db" and m = "users db"
        and q = q]
      serve.create_taken [where parse = "hd_uuid_parse d" and fresh = "fresh c db" and m = "users db"
        and q = q]
    by (cases x) (auto simp: create_result_def em)
  then show ?thesis
    using assms(3,4) r
    by (intro exI [of _ a]) (cases x; simp add: handleCreate_def Let_def op_effects_simps)
qed

lemma served_update:
  assumes "good c" "inv db" "decoded SubjectUpdateUser data = Some (UpdateOp q)"
    "accepted d (UpdateOp q)" "suitable storable text_ok d c (UpdateOp q)"
  shows "served d c db (UpdateOp q) (handleUpdate d svc c data db)"
proof -
  obtain i where i: "hd_uuid_parse d (ur_UserID q) = Some i" using assms(3,4) by auto
  obtain db' x where r: "svc_UpdateUser svc c (update_user i q) db = (db', x)" by fastforce
  have upd: "u_UserId (update_user i q) = i" "u_Email (update_user i q) = ur_Email q"
    by (simp_all add: update_user_def new_user_def)
  have "update_result (users db) (update_user i q) (users db') x"
    using svc_update [OF assms(1,2), of "update_user i q"] assms(5) i r by simp
  then obtain a where "serve (hd_uuid_parse d) (fresh c db) (users db) (UpdateOp q) a (users db')"
    and "a = (case x of Inl err \<Rightarrow> Failed err | Inr v \<Rightarrow> UserAnswer v)"
    using serve.update [where parse = "hd_uuid_parse d" and fresh = "fresh c db" and m = "users db", OF i]
      serve.update_taken [where parse = "hd_uuid_parse d" and fresh = "fresh c db" and m = "users db", OF i]
      serve.update_none [where parse = "hd_uuid_parse d" and fresh = "fresh c db" and m = "users db", OF i]
    by (auto simp: update_result_def upd split: option.splits if_splits)
  then show ?thesis
    using assms(3,4) i r
    by (intro exI [of _ a]) (cases x; simp add: handleUpdate_def wire_simps Let_def op_effects_simps)
qed

lemma served_delete:
  assumes "good c" "inv db" "decoded SubjectDeleteUser data = Some (DeleteOp s)" "accepted d (DeleteOp s)"
  shows "served d c db (DeleteOp s) (handleDelete d svc c data db)"
proof -
  obtain i where i: "hd_uuid_parse d s = Some i" using assms(3,4) by auto
  obtain db' x where r: "svc_DeleteUser svc c i db = (db', x)" by fastforce
  have "delete_result (users db) i (users db') x"
    using svc_delete [OF assms(1,2), of i] r by simp
  then obtain a where "serve (hd_uuid_parse d) (fresh c db) (users db) (DeleteOp s) a (users db')"
    and "a = (case x of Inl err \<Rightarrow> Failed err | Inr v \<Rightarrow> Done)"
    using serve.delete [where parse = "hd_uuid_parse d" and fresh = "fresh c db" and m = "users db", OF i]
      serve.delete_none [where parse = "hd_uuid_parse d" and fresh = "fresh c db" and m = "users db", OF i]
    by (auto simp: delete_result_def split: option.splits)
  then show ?thesis
    using assms(3,4) i r
    by (intro exI [of _ a]) (cases x; simp add: handleDelete_def wire_simps op_effects_simps)
qed

lemma served_get:
  assumes "good c" "inv db" "decoded SubjectGetUserByID data = Some (GetOp s)" "accepted d (GetOp s)"
  shows "served d c db (GetOp s) (handleGetByID d svc c data db)"
proof -
  obtain i where i: "hd_uuid_parse d s = Some i" using assms(3,4) by auto
  obtain x where r: "svc_GetUserByID svc c i db = (db, x)"
    using svc_reads(1) [of c i db] by (metis prod.collapse)
  have "x = (case users db i of None \<Rightarrow> Inl ErrUserNotFound | Some u \<Rightarrow> Inr u)"
    using svc_get [OF assms(1,2), of i] r by simp
  then obtain a where "serve (hd_uuid_parse d) (fresh c db) (users db) (GetOp s) a (users db)"
    and "a = (case x of Inl err \<Rightarrow> Failed err | Inr v \<Rightarrow> UserAnswer v)"
    using serve.get [where parse = "hd_uuid_parse d" and fresh = "fresh c db" and m = "users db", OF i]
      serve.get_none [where parse = "hd_uuid_parse d" and fresh = "fresh c db" and m = "users db", OF i]
    by (auto split: option.splits)
  then show ?thesis
    using assms(3,4) i r
    by (intro exI [of _ a]) (cases x; simp add: handleGetByID_def wire_simps op_effects_simps)
qed

lemma served_email:
  assumes "good c" "inv db" "decoded SubjectGetUserByEmail data = Some (EmailOp em)"
    "accepted d (EmailOp em)" "suitable storable text_ok d c (EmailOp em)"
  shows "served d c db (EmailOp em) (handleGetByEmail d svc c data db)"
proof -
  obtain x where r: "svc_GetUserByEmail svc c em db = (db, x)"
    using svc_reads(2) [of c em db] by (metis prod.collapse)
  have "email_result (users db) em x"
    using svc_get_email [OF assms(1,2), of em] assms(5) r by simp
  then obtain a where "serve (hd_uuid_parse d) (fresh c db) (users db) (EmailOp em) a (users db)"
    and "a = (case x of Inl err \<Rightarrow> Failed err | Inr v \<Rightarrow> UserAnswer v)"
    using serve.email [of _ "users db" em "hd_uuid_parse d" "fresh c db"]
      serve.email_none [of "users db" em "hd_uuid_parse d" "fresh c db"]
    by (auto simp: email_result_def split: sum.splits)
  then show ?thesis
    using assms(3,4) r
    by (intro exI [of _ a]) (cases x; simp add: handleGetByEmail_def wire_simps op_effects_simps)
qed

lemma served_list:
  assumes "good c" "inv db" "decoded SubjectListUsers data = Some (ListOp q)"
    "accepted d (ListOp q)" "suitable storable text_ok d c (ListOp q)"
  shows "served d c db (ListOp q) (handleList d svc c data db)"
proof -
  let ?r = "svc_ListUsers svc c (lr_Status q) (lr_Limit q) (lr_Offset q) db"
  obtain us where "snd ?r = Inr (take (nat (sint (lr_Limit q))) (drop (nat (sint (lr_Offset q))) us))"
    and full: "full_listing (users db) (lr_Status q) us"
    using svc_list [OF assms(1,2), of "lr_Status q" "lr_Limit q" "lr_Offset q"] assms(5) by auto
  then have "?r = (db, Inr (take (nat (sint (lr_Limit q))) (drop (nat (sint (lr_Offset q))) us)))"
    using svc_reads(3) [of c "lr_Status q" "lr_Limit q" "lr_Offset q" db] by (simp add: prod_eq_iff)
  then show ?thesis
    using assms(3,4) serve.list_page [OF full, of "hd_uuid_parse d" "fresh c db"]
    by (intro exI [of _ "UsersAnswer _"]) (simp add: handleList_def wire_simps op_effects_simps)
qed

lemma served_list_all:
  assumes "good c" "inv db"
  shows "served d c db ListAllOp (handleListAll d svc c data db)"
proof -
  obtain us where "svc_ListAllUsers svc c db = (db, Inr us)"
    and full: "full_listing (users db) None us"
    using svc_list_all [OF assms] svc_reads(4) [of c db] by (metis prod.collapse)
  then show ?thesis
    using serve.list_all [OF full, of "hd_uuid_parse d" "fresh c db"]
    by (intro exI [of _ "UsersAnswer us"]) (simp add: handleListAll_def op_effects_simps)
qed

lemma deliver_serves:
  assumes "good c" "inv db" "decoded s data = Some oper" "accepted d oper" "suitable storable text_ok d c oper"
  shows "served d c db oper (deliver handler_entries d svc c s data db)"
proof -
  have s: "s = op_subject oper" using assms(3) by (rule decoded_subject)
  show ?thesis
    using assms unfolding s
    by (cases oper)
      (simp_all add: rpc_simps served_create served_update served_delete served_get served_email
        served_list served_list_all del: accepted.simps suitable.simps decoded_simps)
qed

lemma handlers_inv:
  assumes "inv db"
  shows "inv (fst (handleCreate d svc c data db))" "inv (fst (handleUpdate d svc c data db))"
    "inv (fst (handleDelete d svc c data db))"
proof -
  have i: "\<lbrakk>f = (db', r); inv (fst f)\<rbrakk> \<Longrightarrow> inv db'" for f :: "'db \<times> (domain_error + 'x)" and db' r
    by simp
  show "inv (fst (handleCreate d svc c data db))" "inv (fst (handleUpdate d svc c data db))"
    using assms
    by (auto simp: handleCreate_def handleUpdate_def Let_def
        dest: i [OF _ svc_inv(1) [OF assms]] i [OF _ svc_inv(2) [OF assms]]
        split: option.split prod.split sum.split)
  show "inv (fst (handleDelete d svc c data db))"
    using assms
    by (auto simp: handleDelete_def dest: i [OF _ svc_inv(3) [OF assms]]
        split: option.split prod.split sum.split)
qed

text \<open>Any message, well formed or not, on a call that may fail at any point.\<close>

lemma deliver_inv: "inv db \<Longrightarrow> inv (fst (deliver handler_entries d svc c s data db))"
  by (cases s rule: subject_cases) (simp_all add: rpc_simps handlers_inv handler_reads svc_reads)

end

end
