(* ===== verification/Users_Table.thy ===== *)
theory Users_Table
  imports Domain
begin

text \<open>
  The \<open>users\<close> table of the migrations and the statements of
  \<open>internal/adapters/postgresadaptor/db/users.sql.go\<close>. A statement is a function of the
  table, by the meaning of its SQL text. What the text leaves to the engine is an argument,
  the record \<open>pg_env\<close> of the call: the value of \<open>gen_random_uuid()\<close> and \<open>NOW()\<close>,
  which byte strings the server takes as text (it refuses a NUL byte and invalid UTF-8), the
  order it gives rows that \<open>ORDER BY\<close> does not tell apart, and whether the round trip fails,
  before the statement took effect or after.
\<close>

subsection \<open>Rows\<close>

record null_string =
  ns_String :: string
  ns_Valid :: bool

record null_int32 =
  ni_Int32 :: go_int32
  ni_Valid :: bool

record null_time =
  nt_Time :: gotime
  nt_Valid :: bool

record db_user =
  du_UserID :: uuid
  du_FirstName :: string
  du_LastName :: string
  du_Email :: string
  du_Phone :: null_string
  du_Age :: null_int32
  du_Status :: string
  du_DeletedAt :: null_time
  du_CreatedAt :: gotime
  du_UpdatedAt :: gotime

definition null_time_zero :: null_time where
  "null_time_zero = \<lparr>nt_Time = zero_time, nt_Valid = False\<rparr>"

text \<open>The zero \<open>db.User\<close> that \<open>var i User\<close> holds when \<open>Scan\<close> fails.\<close>

definition zero_db_user :: db_user where
  "zero_db_user =
     \<lparr>du_UserID = 0, du_FirstName = '''', du_LastName = '''', du_Email = '''',
      du_Phone = \<lparr>ns_String = '''', ns_Valid = False\<rparr>,
      du_Age = \<lparr>ni_Int32 = 0, ni_Valid = False\<rparr>, du_Status = '''',
      du_DeletedAt = null_time_zero, du_CreatedAt = zero_time, du_UpdatedAt = zero_time\<rparr>"

type_synonym table = "db_user list"

abbreviation live :: "db_user \<Rightarrow> bool" where
  "live r \<equiv> \<not> nt_Valid (du_DeletedAt r)"

subsection \<open>The engine\<close>

datatype pg_fault = FailBefore db_error | FailAfter db_error

record pg_env =
  pe_uuid :: uuid
  pe_now :: gotime
  pe_text_ok :: "string \<Rightarrow> bool"
  pe_order :: "table \<Rightarrow> table"
  pe_fault :: "pg_fault option"

text \<open>
  One statement's round trip: a failure before the statement leaves the table, a failure
  after it loses the result only.
\<close>

definition run_stmt ::
  "pg_env \<Rightarrow> (table \<Rightarrow> table \<times> (db_error + 'r)) \<Rightarrow> table \<Rightarrow> table \<times> (db_error + 'r)" where
  "run_stmt e st t =
     (case pe_fault e of
        None \<Rightarrow> st t
      | Some (FailBefore err) \<Rightarrow> (t, Inl err)
      | Some (FailAfter err) \<Rightarrow> (fst (st t), Inl err))"

text \<open>
  What \<open>ORDER BY created_at DESC\<close> promises of the engine's order: the same rows, newest
  first.
\<close>

definition order_ok :: "(table \<Rightarrow> table) \<Rightarrow> bool" where
  "order_ok f \<longleftrightarrow>
     (\<forall>xs. mset (f xs) = mset xs \<and> sorted_wrt (\<lambda>a b. du_CreatedAt b \<le> du_CreatedAt a) (f xs))"

subsection \<open>Columns and constraints\<close>

text \<open>
  Storing into \<open>VARCHAR(n)\<close>: a longer value is an error (22001) unless all the characters
  past the limit are spaces, which are cut.
\<close>

fun cut_runes :: "nat \<Rightarrow> string \<Rightarrow> string \<times> string" where
  "cut_runes n [] = ([], [])"
| "cut_runes n (c # cs) =
     (if rune_start c then
        (case n of
           0 \<Rightarrow> ([], c # cs)
         | Suc m \<Rightarrow> (case cut_runes m cs of (a, b) \<Rightarrow> (c # a, b)))
      else (case cut_runes n cs of (a, b) \<Rightarrow> (c # a, b)))"

definition store_varchar :: "nat \<Rightarrow> string \<Rightarrow> db_error + string" where
  "store_varchar n s =
     (if rune_count s \<le> n then Inr s
      else case cut_runes n s of
        (a, b) \<Rightarrow> if \<forall>c\<in>set b. c = CHR '' '' then Inr a else Inl (PqError ''22001''))"

definition age_check :: "null_int32 \<Rightarrow> bool" where
  "age_check a \<longleftrightarrow> (ni_Valid a \<longrightarrow> 0 \<le> sint (ni_Int32 a) \<and> sint (ni_Int32 a) \<le> 150)"

definition status_check :: "string \<Rightarrow> bool" where
  "status_check s \<longleftrightarrow> s \<in> {''ACTIVE'', ''INACTIVE'', ''SUSPENDED''}"

text \<open>The arguments of an \<open>INSERT\<close> or \<open>UPDATE\<close>.\<close>

record create_user_params =
  cp_FirstName :: string
  cp_LastName :: string
  cp_Email :: string
  cp_Phone :: null_string
  cp_Age :: null_int32
  cp_Status :: string

record update_user_params = create_user_params +
  up_UserID :: uuid

text \<open>The server refuses text arguments it cannot take as text (22021) when it binds them.\<close>

definition bad_text :: "pg_env \<Rightarrow> 'a create_user_params_scheme \<Rightarrow> bool" where
  "bad_text e p \<longleftrightarrow>
     \<not> (pe_text_ok e (cp_FirstName p) \<and> pe_text_ok e (cp_LastName p) \<and> pe_text_ok e (cp_Email p)
        \<and> (ns_Valid (cp_Phone p) \<longrightarrow> pe_text_ok e (ns_String (cp_Phone p)))
        \<and> pe_text_ok e (cp_Status p))"

text \<open>
  The values go into their columns: lengths first, then the \<open>CHECK\<close> constraints of the row.
  \<open>r\<close> supplies the columns the statement does not set.
\<close>

definition store_row :: "'a create_user_params_scheme \<Rightarrow> db_user \<Rightarrow> db_error + db_user" where
  "store_row p r =
     (case store_varchar 100 (cp_FirstName p) of Inl x \<Rightarrow> Inl x | Inr fn \<Rightarrow>
      (case store_varchar 100 (cp_LastName p) of Inl x \<Rightarrow> Inl x | Inr ln \<Rightarrow>
      (case store_varchar 255 (cp_Email p) of Inl x \<Rightarrow> Inl x | Inr em \<Rightarrow>
      (case (if ns_Valid (cp_Phone p) then store_varchar 20 (ns_String (cp_Phone p))
             else Inr (ns_String (cp_Phone p))) of Inl x \<Rightarrow> Inl x | Inr ph \<Rightarrow>
      (case store_varchar 20 (cp_Status p) of Inl x \<Rightarrow> Inl x | Inr st \<Rightarrow>
       if age_check (cp_Age p) \<and> status_check st
       then Inr (r\<lparr>du_FirstName := fn, du_LastName := ln, du_Email := em,
                   du_Phone := (cp_Phone p)\<lparr>ns_String := ph\<rparr>, du_Age := cp_Age p,
                   du_Status := st\<rparr>)
       else Inl (PqError ''23514''))))))"

text \<open>
  The unique indexes: the primary key over all rows, and \<open>idx_users_email\<close> as migration
  000002 leaves it, over the rows with \<open>deleted_at IS NULL\<close>.
\<close>

definition unique_violation :: "table \<Rightarrow> db_user \<Rightarrow> bool" where
  "unique_violation others r \<longleftrightarrow>
     (\<exists>q\<in>set others. du_UserID q = du_UserID r
        \<or> live q \<and> live r \<and> du_Email q = du_Email r)"

subsection \<open>The statements\<close>

definition insert_user ::
  "pg_env \<Rightarrow> create_user_params \<Rightarrow> table \<Rightarrow> table \<times> (db_error + db_user)" where
  "insert_user e p t =
     (if bad_text e p then (t, Inl (PqError ''22021''))
      else case store_row p (zero_db_user\<lparr>du_UserID := pe_uuid e, du_CreatedAt := pe_now e,
                                          du_UpdatedAt := pe_now e\<rparr>) of
        Inl err \<Rightarrow> (t, Inl err)
      | Inr r \<Rightarrow>
          if unique_violation t r then (t, Inl (PqError ''23505'')) else (t @ [r], Inr r))"

text \<open>A \<open>:one\<close> query scans the first row, and no row is \<open>sql.ErrNoRows\<close>.\<close>

definition first_row :: "table \<Rightarrow> db_error + db_user" where
  "first_row t = (case t of [] \<Rightarrow> Inl ErrNoRows | r # _ \<Rightarrow> Inr r)"

text \<open>The rows a \<open>WHERE user_id = $1 AND deleted_at IS NULL\<close> selects.\<close>

abbreviation target :: "uuid \<Rightarrow> db_user \<Rightarrow> bool" where
  "target i r \<equiv> du_UserID r = i \<and> live r"

definition select_by_id :: "uuid \<Rightarrow> table \<Rightarrow> table \<times> (db_error + db_user)" where
  "select_by_id i t = (t, first_row (filter (target i) t))"

definition select_by_email :: "pg_env \<Rightarrow> string \<Rightarrow> table \<Rightarrow> table \<times> (db_error + db_user)" where
  "select_by_email e m t =
     (if pe_text_ok e m then (t, first_row (filter (\<lambda>r. du_Email r = m \<and> live r) t))
      else (t, Inl (PqError ''22021'')))"

definition status_match :: "null_string \<Rightarrow> db_user \<Rightarrow> bool" where
  "status_match s r \<longleftrightarrow> live r \<and> (\<not> ns_Valid s \<or> du_Status r = ns_String s)"

definition select_all ::
  "pg_env \<Rightarrow> null_string \<Rightarrow> table \<Rightarrow> table \<times> (db_error + db_user list)" where
  "select_all e s t =
     (if ns_Valid s \<and> \<not> pe_text_ok e (ns_String s) then (t, Inl (PqError ''22021''))
      else (t, Inr (pe_order e (filter (status_match s) t))))"

definition select_page ::
  "pg_env \<Rightarrow> go_int32 \<Rightarrow> go_int32 \<Rightarrow> null_string \<Rightarrow> table \<Rightarrow> table \<times> (db_error + db_user list)" where
  "select_page e lim off s t =
     (if ns_Valid s \<and> \<not> pe_text_ok e (ns_String s) then (t, Inl (PqError ''22021''))
      else if sint off < 0 then (t, Inl (PqError ''2201X''))
      else if sint lim < 0 then (t, Inl (PqError ''2201W''))
      else (t, Inr (take (nat (sint lim)) (drop (nat (sint off))
             (pe_order e (filter (status_match s) t))))))"

text \<open>
  The row is looked up before the new values are stored; for a value that is too long and an id that
  is unknown the engine may also report the former.
\<close>

definition update_row ::
  "pg_env \<Rightarrow> update_user_params \<Rightarrow> table \<Rightarrow> table \<times> (db_error + db_user)" where
  "update_row e p t =
     (if bad_text e p then (t, Inl (PqError ''22021''))
      else case first_row (filter (target (up_UserID p)) t) of
        Inl err \<Rightarrow> (t, Inl err)
      | Inr r \<Rightarrow>
          (case store_row p (r\<lparr>du_UpdatedAt := pe_now e\<rparr>) of
             Inl err \<Rightarrow> (t, Inl err)
           | Inr r' \<Rightarrow>
               if unique_violation (filter (\<lambda>q. \<not> target (up_UserID p) q) t) r'
               then (t, Inl (PqError ''23505''))
               else (map (\<lambda>q. if target (up_UserID p) q then r' else q) t, Inr r')))"

text \<open>The soft delete, and the number of rows it affected.\<close>

definition delete_row :: "pg_env \<Rightarrow> uuid \<Rightarrow> table \<Rightarrow> table \<times> (db_error + nat)" where
  "delete_row e i t =
     (map (\<lambda>r. if target i r
               then r\<lparr>du_DeletedAt := \<lparr>nt_Time = pe_now e, nt_Valid = True\<rparr>\<rparr> else r) t,
      Inr (length (filter (target i) t)))"

subsection \<open>The live users, and the table's invariant\<close>

text \<open>What the table says about live users: a finite map from their ids to their rows.\<close>

definition live_rows :: "table \<Rightarrow> uuid \<rightharpoonup> db_user" where
  "live_rows t = map_of (map (\<lambda>r. (du_UserID r, r)) (filter live t))"

definition row_ok :: "db_user \<Rightarrow> bool" where
  "row_ok r \<longleftrightarrow>
     rune_count (du_FirstName r) \<le> 100 \<and> rune_count (du_LastName r) \<le> 100
     \<and> rune_count (du_Email r) \<le> 255
     \<and> (ns_Valid (du_Phone r) \<longrightarrow> rune_count (ns_String (du_Phone r)) \<le> 20)
     \<and> age_check (du_Age r) \<and> status_check (du_Status r)"

definition table_ok :: "table \<Rightarrow> bool" where
  "table_ok t \<longleftrightarrow>
     distinct (map du_UserID t) \<and> distinct (map du_Email (filter live t))
     \<and> (\<forall>r\<in>set t. row_ok r)"

lemma table_ok_Nil [simp]: "table_ok []"
  by (simp add: table_ok_def)

lemma table_okD:
  assumes "table_ok t"
  shows "distinct (map du_UserID t)" "distinct (map du_Email (filter live t))"
    "\<And>r. r \<in> set t \<Longrightarrow> row_ok r"
  using assms by (auto simp: table_ok_def)

lemma live_rows_Nil [simp]: "live_rows [] = Map.empty"
  by (simp add: live_rows_def)

lemma live_rows_Cons:
  "live_rows (r # t) = (if live r then (live_rows t)(du_UserID r \<mapsto> r) else live_rows t)"
  by (simp add: live_rows_def)

lemma live_rows_SomeD: "live_rows t i = Some r \<Longrightarrow> r \<in> set t \<and> live r \<and> du_UserID r = i"
  by (auto simp: live_rows_def dest!: map_of_SomeD)

lemma live_rows_mem:
  "\<lbrakk>distinct (map du_UserID t); r \<in> set t; live r\<rbrakk> \<Longrightarrow> live_rows t (du_UserID r) = Some r"
  unfolding live_rows_def
  by (rule map_of_is_SomeI) (auto simp: comp_def distinct_map inj_on_def)

lemma live_rows_None: "live_rows t i = None \<longleftrightarrow> (\<forall>r\<in>set t. \<not> target i r)"
  by (induction t) (auto simp: live_rows_Cons)

lemma first_row_target [store_simps]:
  "first_row (filter (target i) t) =
     (case live_rows t i of None \<Rightarrow> Inl ErrNoRows | Some r \<Rightarrow> Inr r)"
  by (induction t) (auto simp: first_row_def live_rows_Cons)

lemma live_rows_snoc:
  assumes "\<forall>q\<in>set t. du_UserID q \<noteq> du_UserID r" and "live r"
  shows "live_rows (t @ [r]) = (live_rows t)(du_UserID r \<mapsto> r)"
  using assms by (induction t) (auto simp: live_rows_Cons fun_upd_twist)

lemma live_rows_replace:
  assumes "live_rows t i \<noteq> None" and "live r'" and "du_UserID r' = i"
  shows "live_rows (map (\<lambda>q. if target i q then r' else q) t) = (live_rows t)(i \<mapsto> r')"
proof -
  have "\<not> (\<forall>r\<in>set t. \<not> target i r)" using assms(1) by (simp add: live_rows_None)
  then show ?thesis
    using assms(2,3)
  proof (induction t)
    case (Cons q t)
    show ?case
    proof (cases "\<forall>r\<in>set t. \<not> target i r")
      case True
      then have "map (\<lambda>q. if target i q then r' else q) t = t"
        by (intro map_idI) auto
      with True Cons.prems show ?thesis by (auto simp: live_rows_Cons)
    next
      case False
      with Cons show ?thesis by (auto simp: live_rows_Cons fun_upd_twist)
    qed
  qed simp
qed

lemma live_rows_remove:
  assumes "\<And>r. \<not> live (f r)"
  shows "live_rows (map (\<lambda>r. if target i r then f r else r) t) = (live_rows t)(i := None)"
  using assms by (induction t) (auto simp: live_rows_Cons fun_upd_twist)

subsection \<open>Storing values\<close>

lemma store_varchar_short [store_simps]: "rune_count s \<le> n \<Longrightarrow> store_varchar n s = Inr s"
  by (simp add: store_varchar_def)

lemma rune_count_cut_runes: "rune_count (fst (cut_runes n s)) \<le> n"
proof (induction n s rule: cut_runes.induct)
  case (2 n c cs)
  then show ?case
    by (cases n) (auto simp: rune_count_def split: prod.splits)
qed simp

lemma store_varchar_bound: "store_varchar n s = Inr s' \<Longrightarrow> rune_count s' \<le> n"
  using rune_count_cut_runes [of n s]
  by (auto simp: store_varchar_def split: if_splits prod.splits)

lemma store_row_ok: "store_row p r = Inr r' \<Longrightarrow> row_ok r'"
  by (auto simp: store_row_def row_ok_def dest: store_varchar_bound
      split: sum.splits if_splits)

lemma store_row_frame:
  "store_row p r = Inr r' \<Longrightarrow>
     du_UserID r' = du_UserID r \<and> du_DeletedAt r' = du_DeletedAt r
     \<and> du_CreatedAt r' = du_CreatedAt r \<and> du_UpdatedAt r' = du_UpdatedAt r"
  by (auto simp: store_row_def split: sum.splits if_splits)

text \<open>Arguments that fit their columns and pass the checks are stored as they are.\<close>

definition params_fit :: "'a create_user_params_scheme \<Rightarrow> bool" where
  "params_fit p \<longleftrightarrow>
     rune_count (cp_FirstName p) \<le> 100 \<and> rune_count (cp_LastName p) \<le> 100
     \<and> rune_count (cp_Email p) \<le> 255
     \<and> (ns_Valid (cp_Phone p) \<longrightarrow> rune_count (ns_String (cp_Phone p)) \<le> 20)
     \<and> age_check (cp_Age p) \<and> status_check (cp_Status p)"

lemma store_row_fit [store_simps]:
  assumes "params_fit p"
  shows "store_row p r =
     Inr (r\<lparr>du_FirstName := cp_FirstName p, du_LastName := cp_LastName p,
            du_Email := cp_Email p, du_Phone := cp_Phone p, du_Age := cp_Age p,
            du_Status := cp_Status p\<rparr>)"
proof -
  have "rune_count (cp_Status p) \<le> 20"
    using assms by (auto simp: params_fit_def status_check_def rune_count_def rune_start_def)
  with assms show ?thesis
    by (auto simp: params_fit_def store_row_def store_varchar_short)
qed

subsection \<open>Every statement keeps the invariant\<close>

lemma insert_user_live:
  assumes "insert_user e p t = (t', Inr r)"
  shows "t' = t @ [r] \<and> live r \<and> row_ok r \<and> \<not> unique_violation t r"
proof -
  from assms have st: "store_row p (zero_db_user\<lparr>du_UserID := pe_uuid e, du_CreatedAt := pe_now e,
      du_UpdatedAt := pe_now e\<rparr>) = Inr r"
    and "t' = t @ [r]" and "\<not> unique_violation t r"
    by (auto simp: insert_user_def split: sum.splits if_splits)
  moreover have "live r"
    using store_row_frame [OF st] by (simp add: zero_db_user_def null_time_zero_def)
  ultimately show ?thesis using store_row_ok [OF st] by simp
qed

lemma insert_user_unchanged: "insert_user e p t = (t', Inl err) \<Longrightarrow> t' = t"
  by (auto simp: insert_user_def split: sum.splits if_splits)

lemma insert_user_ok: "table_ok t \<Longrightarrow> table_ok (fst (insert_user e p t))"
proof (cases "insert_user e p t")
  case (Pair t' res)
  assume ok: "table_ok t"
  show ?thesis
  proof (cases res)
    case (Inl err)
    with Pair ok show ?thesis using insert_user_unchanged by force
  next
    case (Inr r)
    with Pair have "t' = t @ [r]" "live r" "row_ok r" "\<not> unique_violation t r"
      using insert_user_live by auto
    with Pair ok show ?thesis by (auto simp: table_ok_def unique_violation_def)
  qed
qed

lemma update_row_live:
  assumes "update_row e p t = (t', Inr r')"
  shows "\<exists>r. live_rows t (up_UserID p) = Some r \<and> target (up_UserID p) r'
           \<and> row_ok r'
           \<and> \<not> unique_violation (filter (\<lambda>q. \<not> target (up_UserID p) q) t) r'
           \<and> t' = map (\<lambda>q. if target (up_UserID p) q then r' else q) t"
proof -
  from assms obtain r where r: "live_rows t (up_UserID p) = Some r"
    and st: "store_row p (r\<lparr>du_UpdatedAt := pe_now e\<rparr>) = Inr r'"
    and rest: "\<not> unique_violation (filter (\<lambda>q. \<not> target (up_UserID p) q) t) r'"
      "t' = map (\<lambda>q. if target (up_UserID p) q then r' else q) t"
    by (auto simp: update_row_def first_row_target split: sum.splits if_splits option.splits)
  from r have "target (up_UserID p) r" by (auto dest: live_rows_SomeD)
  with store_row_frame [OF st] have "target (up_UserID p) r'" by simp
  with r rest store_row_ok [OF st] show ?thesis by auto
qed

lemma update_row_unchanged: "update_row e p t = (t', Inl err) \<Longrightarrow> t' = t"
  by (auto simp: update_row_def split: sum.splits if_splits)

lemma distinct_ids_replace:
  "du_UserID r' = i \<Longrightarrow> distinct (map du_UserID (map (\<lambda>q. if target i q then r' else q) t))
     = distinct (map du_UserID t)"
proof -
  assume "du_UserID r' = i"
  then have "map du_UserID (map (\<lambda>q. if target i q then r' else q) t) = map du_UserID t"
    by (induction t) auto
  then show ?thesis by (rule arg_cong)
qed

lemma unique_violation_subset:
  "\<lbrakk>\<not> unique_violation xs r; set ys \<subseteq> set xs\<rbrakk> \<Longrightarrow> \<not> unique_violation ys r"
  unfolding unique_violation_def by blast

lemma no_email_clash:
  "\<lbrakk>\<not> unique_violation (filter P t) r; q \<in> set t; P q; live q; live r\<rbrakk>
    \<Longrightarrow> du_Email q \<noteq> du_Email r"
  unfolding unique_violation_def set_filter by blast

lemma distinct_emails_replace:
  assumes "distinct (map du_UserID t)" "distinct (map du_Email (filter live t))"
    and "\<not> unique_violation (filter (\<lambda>q. \<not> target i q) t) r'" and "target i r'"
  shows "distinct (map du_Email (filter live (map (\<lambda>q. if target i q then r' else q) t)))"
  using assms
proof (induction t)
  case (Cons q t)
  have IH: "distinct (map du_Email (filter live (map (\<lambda>q. if target i q then r' else q) t)))"
  proof (rule Cons.IH)
    show "distinct (map du_UserID t)" using Cons.prems(1) by simp
    show "distinct (map du_Email (filter live t))"
      using Cons.prems(2) by (simp split: if_splits)
    show "\<not> unique_violation (filter (\<lambda>q. \<not> target i q) t) r'"
      using Cons.prems(3) by (rule unique_violation_subset) auto
    show "target i r'" by (rule Cons.prems(4))
  qed
  have emails: "du_Email q' \<noteq> du_Email r'" if "q' \<in> set (q # t)" "live q'" "\<not> target i q'" for q'
    using no_email_clash [OF Cons.prems(3) that(1,3,2)] Cons.prems(4) by simp
  show ?case
  proof (cases "target i q")
    case True
    then have no: "\<forall>r\<in>set t. \<not> target i r" using Cons.prems(1) by (auto simp: image_iff)
    then have "map (\<lambda>q. if target i q then r' else q) t = t" by (intro map_idI) auto
    moreover have "du_Email r' \<notin> du_Email ` {x \<in> set t. live x}"
      using emails no by force
    ultimately show ?thesis using True IH Cons.prems(4) by simp
  next
    case False
    have "du_Email q \<notin> du_Email ` {x \<in> set (map (\<lambda>q. if target i q then r' else q) t). live x}"
      if "live q"
      using emails [of q] that False Cons.prems(2) by (auto split: if_splits)
    with False IH show ?thesis by auto
  qed
qed simp

lemma update_row_ok: "table_ok t \<Longrightarrow> table_ok (fst (update_row e p t))"
proof (cases "update_row e p t")
  case (Pair t' res)
  assume ok: "table_ok t"
  show ?thesis
  proof (cases res)
    case (Inl err)
    with Pair ok show ?thesis using update_row_unchanged by force
  next
    case (Inr r')
    with Pair have u: "target (up_UserID p) r'" "row_ok r'"
      "\<not> unique_violation (filter (\<lambda>q. \<not> target (up_UserID p) q) t) r'"
      and t': "t' = map (\<lambda>q. if target (up_UserID p) q then r' else q) t"
      using update_row_live by blast+
    have "distinct (map du_UserID t')"
      unfolding t' using table_okD(1) [OF ok] u(1) by (subst distinct_ids_replace) auto
    moreover have "distinct (map du_Email (filter live t'))"
      unfolding t' using table_okD(1,2) [OF ok] u(3,1) by (rule distinct_emails_replace)
    moreover have "\<forall>r\<in>set t'. row_ok r"
      using table_okD(3) [OF ok] u(2) t' by auto
    ultimately show ?thesis using Pair by (simp add: table_ok_def)
  qed
qed

lemma delete_row_ids: "map du_UserID (fst (delete_row e i t)) = map du_UserID t"
  by (simp add: delete_row_def)

lemma delete_row_ok: "table_ok t \<Longrightarrow> table_ok (fst (delete_row e i t))"
proof -
  assume ok: "table_ok t"
  let ?f = "\<lambda>r. if target i r then r\<lparr>du_DeletedAt := \<lparr>nt_Time = pe_now e, nt_Valid = True\<rparr>\<rparr> else r"
  have "map du_UserID (map ?f t) = map du_UserID t"
    using delete_row_ids [of e i t] by (simp only: delete_row_def fst_conv)
  then have ids: "distinct (map du_UserID (map ?f t))"
    using table_okD(1) [OF ok] by (simp only:)
  have emails: "distinct (map du_Email (filter live (map ?f t)))"
    using table_okD(2) [OF ok] by (induction t) (auto split: if_splits)
  have rows: "\<forall>r\<in>set (map ?f t). row_ok r"
    using table_okD(3) [OF ok] by (auto simp: row_ok_def)
  show ?thesis
    unfolding table_ok_def delete_row_def fst_conv using ids emails rows by (intro conjI)
qed

lemma run_stmt_ok:
  "\<lbrakk>table_ok t; \<And>t. table_ok t \<Longrightarrow> table_ok (fst (st t))\<rbrakk> \<Longrightarrow> table_ok (fst (run_stmt e st t))"
  by (auto simp: run_stmt_def split: option.split pg_fault.split)

end
