(* ===== verification/Postgres_Repository.thy ===== *)
theory Postgres_Repository
  imports Users_Table User_Service
begin

text \<open>
  \<open>internal/adapters/postgresadaptor\<close>: the mappers between domain and table values and
  the repository over the statements of \<open>Users_Table\<close>. The proofs show that it meets the
  repository's contract on calls without an infrastructure failure and for data the table
  accepts, and what \<open>GetByID\<close> and \<open>Update\<close> do otherwise.
\<close>

subsection \<open>Mappers\<close>

definition toNullString :: "string option \<Rightarrow> null_string" where
  "toNullString s =
     (case s of
        None \<Rightarrow> \<lparr>ns_String = '''', ns_Valid = False\<rparr>
      | Some v \<Rightarrow> \<lparr>ns_String = v, ns_Valid = True\<rparr>)"

definition toNullInt32 :: "go_int option \<Rightarrow> null_int32" where
  "toNullInt32 i =
     (case i of
        None \<Rightarrow> \<lparr>ni_Int32 = 0, ni_Valid = False\<rparr>
      | Some v \<Rightarrow> \<lparr>ni_Int32 = to_int32 v, ni_Valid = True\<rparr>)"

definition fromNullString :: "null_string \<Rightarrow> string option" where
  "fromNullString s = (if \<not> ns_Valid s then None else Some (ns_String s))"

definition fromNullInt32 :: "null_int32 \<Rightarrow> go_int option" where
  "fromNullInt32 i = (if \<not> ni_Valid i then None else Some (to_int (ni_Int32 i)))"

definition fromNullTime :: "null_time \<Rightarrow> gotime option" where
  "fromNullTime t = (if \<not> nt_Valid t then None else Some (nt_Time t))"

definition toDomainUser :: "db_user \<Rightarrow> user" where
  "toDomainUser r =
     \<lparr>u_UserId = du_UserID r, u_FirstName = du_FirstName r, u_LastName = du_LastName r,
      u_Email = du_Email r, u_Phone = fromNullString (du_Phone r),
      u_Age = fromNullInt32 (du_Age r), u_Status = du_Status r,
      u_CreatedAt = du_CreatedAt r, u_UpdatedAt = du_UpdatedAt r,
      u_DeletedAt = fromNullTime (du_DeletedAt r)\<rparr>"

lemma fromNullString_toNullString [store_simps]: "fromNullString (toNullString s) = s"
  by (simp add: fromNullString_def toNullString_def split: option.split)

lemma fromNullInt32_toNullInt32 [store_simps]:
  "pred_option (\<lambda>i. fits_signed 32 (sint i)) a \<Longrightarrow> fromNullInt32 (toNullInt32 a) = a"
  by (cases a) (simp_all add: fromNullInt32_def toNullInt32_def to_int_to_int32)

subsection \<open>The repository\<close>

text \<open>
  \<open>queries.X\<close> runs a statement and, on an error, also returns the zero row: the code that
  does not look at the error goes on with it.
\<close>

definition create_params :: "user \<Rightarrow> create_user_params" where
  "create_params u =
     \<lparr>cp_FirstName = u_FirstName u, cp_LastName = u_LastName u, cp_Email = u_Email u,
      cp_Phone = toNullString (u_Phone u), cp_Age = toNullInt32 (u_Age u),
      cp_Status = u_Status u\<rparr>"

definition update_params :: "user \<Rightarrow> update_user_params" where
  "update_params u =
     \<lparr>cp_FirstName = u_FirstName u, cp_LastName = u_LastName u, cp_Email = u_Email u,
      cp_Phone = toNullString (u_Phone u), cp_Age = toNullInt32 (u_Age u),
      cp_Status = u_Status u, up_UserID = u_UserId u\<rparr>"

definition status_filter :: "string option \<Rightarrow> null_string" where
  "status_filter status =
     (case status of
        None \<Rightarrow> \<lparr>ns_String = '''', ns_Valid = False\<rparr>
      | Some s \<Rightarrow> \<lparr>ns_String = s, ns_Valid = True\<rparr>)"

definition pg_Create :: "pg_env \<Rightarrow> user \<Rightarrow> table \<Rightarrow> (table, user) result" where
  "pg_Create e u t =
     (case run_stmt e (insert_user e (create_params u)) t of
        (t', Inl err) \<Rightarrow>
          if err = PqError ''23505'' then (t', Inl ErrEmailAlreadyExists)
          else (t', Inl (DbError err))
      | (t', Inr r) \<Rightarrow> (t', Inr (toDomainUser r)))"

definition pg_GetByID :: "pg_env \<Rightarrow> uuid \<Rightarrow> table \<Rightarrow> (table, user) result" where
  "pg_GetByID e i t =
     (case run_stmt e (select_by_id i) t of
        (t', Inl err) \<Rightarrow>
          if err = ErrNoRows then (t', Inl ErrUserNotFound)
          else (t', Inr (toDomainUser zero_db_user))
      | (t', Inr r) \<Rightarrow> (t', Inr (toDomainUser r)))"

definition pg_GetByEmail :: "pg_env \<Rightarrow> string \<Rightarrow> table \<Rightarrow> (table, user) result" where
  "pg_GetByEmail e em t =
     (case run_stmt e (select_by_email e em) t of
        (t', Inl err) \<Rightarrow>
          if err = ErrNoRows then (t', Inl ErrUserNotFound) else (t', Inl (DbError err))
      | (t', Inr r) \<Rightarrow> (t', Inr (toDomainUser r)))"

definition pg_List ::
  "pg_env \<Rightarrow> string option \<Rightarrow> go_int32 \<Rightarrow> go_int32 \<Rightarrow> table \<Rightarrow> (table, user list) result" where
  "pg_List e status lim off t =
     (case run_stmt e (select_page e lim off (status_filter status)) t of
        (t', Inl err) \<Rightarrow> (t', Inl (DbError err))
      | (t', Inr rs) \<Rightarrow> (t', Inr (map toDomainUser rs)))"

definition pg_ListAll :: "pg_env \<Rightarrow> string option \<Rightarrow> table \<Rightarrow> (table, user list) result" where
  "pg_ListAll e status t =
     (case run_stmt e (select_all e (status_filter status)) t of
        (t', Inl err) \<Rightarrow> (t', Inl (DbError err))
      | (t', Inr rs) \<Rightarrow> (t', Inr (map toDomainUser rs)))"

definition pg_Update :: "pg_env \<Rightarrow> user \<Rightarrow> table \<Rightarrow> (table, user) result" where
  "pg_Update e u t =
     (case run_stmt e (update_row e (update_params u)) t of
        (t', Inl err) \<Rightarrow>
          if err = ErrNoRows then (t', Inl ErrUserNotFound)
          else if err = PqError ''23505'' then (t', Inl ErrEmailAlreadyExists)
          else (t', Inr (toDomainUser zero_db_user))
      | (t', Inr r) \<Rightarrow> (t', Inr (toDomainUser r)))"

definition pg_Delete :: "pg_env \<Rightarrow> uuid \<Rightarrow> table \<Rightarrow> (table, unit) result" where
  "pg_Delete e i t =
     (case run_stmt e (delete_row e i) t of
        (t', Inl err) \<Rightarrow> (t', Inl (DbError err))
      | (t', Inr n) \<Rightarrow> if n = 0 then (t', Inl ErrUserNotFound) else (t', Inr ()))"

definition NewPostgresRepository :: "(pg_env, table) user_repository" where
  "NewPostgresRepository =
     \<lparr>repo_Create = pg_Create, repo_GetByID = pg_GetByID, repo_GetByEmail = pg_GetByEmail,
      repo_List = pg_List, repo_ListAll = pg_ListAll, repo_Update = pg_Update,
      repo_Delete = pg_Delete\<rparr>"

lemma NewPostgresRepository_simps [store_simps]:
  "repo_Create NewPostgresRepository = pg_Create"
  "repo_GetByID NewPostgresRepository = pg_GetByID"
  "repo_GetByEmail NewPostgresRepository = pg_GetByEmail"
  "repo_List NewPostgresRepository = pg_List"
  "repo_ListAll NewPostgresRepository = pg_ListAll"
  "repo_Update NewPostgresRepository = pg_Update"
  "repo_Delete NewPostgresRepository = pg_Delete"
  by (simp_all add: NewPostgresRepository_def)

subsection \<open>The abstract view\<close>

definition pg_users :: "table \<Rightarrow> uuid \<rightharpoonup> user" where
  "pg_users t = (\<lambda>i. map_option toDomainUser (live_rows t i))"

definition pg_good :: "pg_env \<Rightarrow> bool" where
  "pg_good e \<longleftrightarrow> pe_fault e = None \<and> order_ok (pe_order e)"

definition pg_fresh :: "pg_env \<Rightarrow> table \<Rightarrow> bool" where
  "pg_fresh e t \<longleftrightarrow> (\<forall>q\<in>set t. du_UserID q \<noteq> pe_uuid e)"

definition pg_storable :: "pg_env \<Rightarrow> user \<Rightarrow> bool" where
  "pg_storable e u \<longleftrightarrow>
     pe_text_ok e (u_FirstName u) \<and> pe_text_ok e (u_LastName u) \<and> pe_text_ok e (u_Email u)
     \<and> pred_option (pe_text_ok e) (u_Phone u) \<and> pe_text_ok e (u_Status u)
     \<and> rune_count (u_FirstName u) \<le> 100 \<and> rune_count (u_LastName u) \<le> 100
     \<and> rune_count (u_Email u) \<le> 255 \<and> pred_option (\<lambda>p. rune_count p \<le> 20) (u_Phone u)
     \<and> pred_option (\<lambda>a. 0 \<le> sint a \<and> sint a \<le> 150) (u_Age u) \<and> IsValid (u_Status u)"

subsection \<open>The repository meets its contract\<close>

lemma toDomainUser_simps [simp]:
  "u_UserId (toDomainUser r) = du_UserID r"
  "u_Email (toDomainUser r) = du_Email r"
  "u_Status (toDomainUser r) = du_Status r"
  "u_CreatedAt (toDomainUser r) = du_CreatedAt r"
  "u_UpdatedAt (toDomainUser r) = du_UpdatedAt r"
  "u_DeletedAt (toDomainUser r) = fromNullTime (du_DeletedAt r)"
  by (simp_all add: toDomainUser_def)

lemma ran_pg_users:
  "table_ok t \<Longrightarrow> ran (pg_users t) = toDomainUser ` {r \<in> set t. live r}"
  by (auto simp: pg_users_def ran_def dest: live_rows_SomeD
      intro: live_rows_mem [OF table_okD(1)])

lemma pg_users_SomeD:
  "pg_users t i = Some u \<Longrightarrow> \<exists>r\<in>set t. u = toDomainUser r \<and> target i r"
  by (auto simp: pg_users_def dest: live_rows_SomeD)

lemma params_simps [simp]:
  "cp_FirstName (create_params u) = u_FirstName u"
  "cp_LastName (create_params u) = u_LastName u"
  "cp_Email (create_params u) = u_Email u"
  "cp_Phone (create_params u) = toNullString (u_Phone u)"
  "cp_Age (create_params u) = toNullInt32 (u_Age u)"
  "cp_Status (create_params u) = u_Status u"
  "cp_FirstName (update_params u) = u_FirstName u"
  "cp_LastName (update_params u) = u_LastName u"
  "cp_Email (update_params u) = u_Email u"
  "cp_Phone (update_params u) = toNullString (u_Phone u)"
  "cp_Age (update_params u) = toNullInt32 (u_Age u)"
  "cp_Status (update_params u) = u_Status u"
  "up_UserID (update_params u) = u_UserId u"
  by (simp_all add: create_params_def update_params_def)

lemma storable_create:
  assumes "pg_storable e u"
  shows "params_fit (create_params u)" "\<not> bad_text e (create_params u)"
  using assms
  by (auto simp: pg_storable_def params_fit_def bad_text_def toNullString_def
      toNullInt32_def age_check_def status_check_def IsValid_iff sint_to_int32 fits_signed_def
      split: option.split)

lemma storable_update:
  assumes "pg_storable e u"
  shows "params_fit (update_params u)" "\<not> bad_text e (update_params u)"
  using assms
  by (auto simp: pg_storable_def params_fit_def bad_text_def toNullString_def
      toNullInt32_def age_check_def status_check_def IsValid_iff sint_to_int32 fits_signed_def
      split: option.split)

lemma storable_age: "pg_storable e u \<Longrightarrow> fromNullInt32 (toNullInt32 (u_Age u)) = u_Age u"
  by (rule fromNullInt32_toNullInt32)
    (auto simp: pg_storable_def fits_signed_def elim: option.pred_mono_strong)

lemma insert_user_fit:
  assumes "params_fit p" "\<not> bad_text e p"
  shows "\<exists>r. insert_user e p t =
      (if unique_violation t r then (t, Inl (PqError ''23505'')) else (t @ [r], Inr r))
    \<and> live r \<and> du_UserID r = pe_uuid e \<and> du_FirstName r = cp_FirstName p
    \<and> du_LastName r = cp_LastName p \<and> du_Email r = cp_Email p \<and> du_Phone r = cp_Phone p
    \<and> du_Age r = cp_Age p \<and> du_Status r = cp_Status p"
  using assms
  by (intro exI [of _ "zero_db_user\<lparr>du_UserID := pe_uuid e, du_CreatedAt := pe_now e,
        du_UpdatedAt := pe_now e, du_FirstName := cp_FirstName p, du_LastName := cp_LastName p,
        du_Email := cp_Email p, du_Phone := cp_Phone p, du_Age := cp_Age p,
        du_Status := cp_Status p\<rparr>"])
    (simp add: insert_user_def store_row_fit zero_db_user_def null_time_zero_def)

lemma update_row_fit:
  assumes "params_fit p" "\<not> bad_text e p" "live_rows t (up_UserID p) = Some old"
  shows "\<exists>r. update_row e p t =
      (if unique_violation (filter (\<lambda>q. \<not> target (up_UserID p) q) t) r
       then (t, Inl (PqError ''23505''))
       else (map (\<lambda>q. if target (up_UserID p) q then r else q) t, Inr r))
    \<and> target (up_UserID p) r \<and> du_CreatedAt r = du_CreatedAt old
    \<and> du_FirstName r = cp_FirstName p
    \<and> du_LastName r = cp_LastName p \<and> du_Email r = cp_Email p \<and> du_Phone r = cp_Phone p
    \<and> du_Age r = cp_Age p \<and> du_Status r = cp_Status p"
  using assms live_rows_SomeD [OF assms(3)]
  by (intro exI [of _ "old\<lparr>du_UpdatedAt := pe_now e, du_FirstName := cp_FirstName p,
        du_LastName := cp_LastName p, du_Email := cp_Email p, du_Phone := cp_Phone p,
        du_Age := cp_Age p, du_Status := cp_Status p\<rparr>"])
    (simp add: update_row_def first_row_target store_row_fit)

lemma unique_violation_others:
  assumes ok: "table_ok t" and old: "live_rows t i = Some old" and r: "target i r"
  shows "unique_violation (filter (\<lambda>q. \<not> target i q) t) r \<longleftrightarrow>
    \<not> email_free (pg_users t) i (du_Email r)"
proof -
  have ids: "du_UserID q = i \<longleftrightarrow> q = old" if "q \<in> set t" for q
    using live_rows_SomeD [OF old] table_okD(1) [OF ok] that
    by (auto simp: distinct_map inj_on_def)
  have "email_free (pg_users t) i (du_Email r) \<longleftrightarrow>
      (\<forall>q\<in>set t. live q \<and> du_UserID q \<noteq> i \<longrightarrow> du_Email q \<noteq> du_Email r)"
    using live_rows_mem [OF table_okD(1) [OF ok]]
    by (fastforce simp: email_free_def pg_users_def dest: live_rows_SomeD)
  then show ?thesis
    using r ids live_rows_SomeD [OF old] by (auto simp: unique_violation_def)
qed

lemma run_stmt_good [store_simps]: "pe_fault e = None \<Longrightarrow> run_stmt e st t = st t"
  by (simp add: run_stmt_def)

lemma pg_Create_contract:
  assumes "pg_good e" and ok: "table_ok t" and st: "pg_storable e u"
  shows "create_result (pg_users t) u (pg_fresh e t) (pg_users (fst (pg_Create e u t)))
    (snd (pg_Create e u t))"
proof -
  obtain r where ins: "insert_user e (create_params u) t =
      (if unique_violation t r then (t, Inl (PqError ''23505'')) else (t @ [r], Inr r))"
    and r: "live r" "du_UserID r = pe_uuid e" "du_FirstName r = u_FirstName u"
      "du_LastName r = u_LastName u" "du_Email r = u_Email u"
      "du_Phone r = toNullString (u_Phone u)" "du_Age r = toNullInt32 (u_Age u)"
      "du_Status r = u_Status u"
    using insert_user_fit [OF storable_create [OF st], of t] by auto
  have good: "pe_fault e = None" using assms(1) by (simp add: pg_good_def)
  have viol: "unique_violation t r \<longleftrightarrow>
      \<not> (pg_fresh e t \<and> (\<forall>v\<in>ran (pg_users t). u_Email v \<noteq> u_Email u))"
    using r by (auto simp: unique_violation_def pg_fresh_def ran_pg_users [OF ok])
  have data: "same_data (toDomainUser r) u"
    using r storable_age [OF st]
    by (simp add: same_data_def toDomainUser_def fromNullString_toNullString)
  have del: "u_DeletedAt (toDomainUser r) = None" using r(1) by (simp add: fromNullTime_def)
  show ?thesis
  proof (cases "unique_violation t r")
    case True
    then show ?thesis
      using ins viol by (simp add: create_result_def pg_Create_def run_stmt_good [OF good])
  next
    case False
    then have "\<forall>q\<in>set t. du_UserID q \<noteq> du_UserID r" by (auto simp: unique_violation_def)
    then have "live_rows (t @ [r]) = (live_rows t)(du_UserID r \<mapsto> r)"
      and "live_rows t (du_UserID r) = None"
      using r(1) by (auto simp: live_rows_snoc live_rows_None)
    then show ?thesis
      using False ins viol data del
      by (auto simp: create_result_def pg_Create_def run_stmt_good [OF good] pg_users_def)
  qed
qed

lemma pg_GetByID_contract:
  assumes "pg_good e"
  shows "snd (pg_GetByID e i t) =
    (case pg_users t i of None \<Rightarrow> Inl ErrUserNotFound | Some u \<Rightarrow> Inr u)"
  using assms
  by (simp add: pg_good_def pg_GetByID_def run_stmt_good select_by_id_def first_row_target
      pg_users_def split: option.split)

lemma pg_GetByEmail_contract:
  assumes "pg_good e" and "table_ok t" and "pe_text_ok e em"
  shows "email_result (pg_users t) em (snd (pg_GetByEmail e em t))"
proof (cases "filter (\<lambda>r. du_Email r = em \<and> live r) t")
  case Nil
  then have "\<forall>r\<in>set t. \<not> (du_Email r = em \<and> live r)" by (simp add: filter_empty_conv)
  with Nil assms show ?thesis
    by (auto simp: email_result_def pg_good_def pg_GetByEmail_def run_stmt_good
        select_by_email_def first_row_def ran_pg_users)
next
  case (Cons r rs)
  then have "r \<in> set (filter (\<lambda>r. du_Email r = em \<and> live r) t)" by simp
  then have "r \<in> set t" "du_Email r = em" "live r" by auto
  with Cons assms show ?thesis
    by (auto simp: email_result_def pg_good_def pg_GetByEmail_def run_stmt_good
        select_by_email_def first_row_def ran_pg_users)
qed

lemma status_match_filter:
  "status_match (status_filter s) r \<longleftrightarrow> live r \<and> status_selects s (toDomainUser r)"
  by (simp add: status_match_def status_filter_def status_selects_def split: option.split)

lemma ordered_listing:
  assumes ok: "table_ok t" and ord: "order_ok f"
  shows "full_listing (pg_users t) s
           (map toDomainUser (f (filter (status_match (status_filter s)) t)))"
proof -
  let ?xs = "filter (status_match (status_filter s)) t"
  have m: "mset (f ?xs) = mset ?xs"
    and so: "sorted_wrt (\<lambda>a b. du_CreatedAt b \<le> du_CreatedAt a) (f ?xs)"
    using ord by (auto simp: order_ok_def)
  have set: "set (f ?xs) = {r \<in> set t. live r \<and> status_selects s (toDomainUser r)}"
    using mset_eq_setD [OF m] by (auto simp: status_match_filter)
  have "mset (map du_UserID (f ?xs)) = mset (map du_UserID ?xs)" using m by simp
  moreover have "distinct (map du_UserID ?xs)"
    using table_okD(1) [OF ok] by (rule distinct_map_filter)
  ultimately have "distinct (map du_UserID (f ?xs))" by (metis mset_eq_imp_distinct_iff)
  then show ?thesis
    using set so by (auto simp: full_listing_def ran_pg_users [OF ok] comp_def sorted_wrt_map)
qed

lemma pg_ListAll_contract:
  assumes "pg_good e" and "table_ok t" and "pred_option (pe_text_ok e) s"
  shows "\<exists>us. snd (pg_ListAll e s t) = Inr us \<and> full_listing (pg_users t) s us"
  using assms ordered_listing [of t "pe_order e" s]
  by (auto simp: pg_good_def pg_ListAll_def run_stmt_good select_all_def status_filter_def
      split: option.splits)

lemma pg_List_contract:
  assumes "pg_good e" and "table_ok t" and "pred_option (pe_text_ok e) s"
    and "0 \<le> sint l" and "0 \<le> sint off"
  shows "\<exists>us. snd (pg_List e s l off t) = Inr (take (nat (sint l)) (drop (nat (sint off)) us))
           \<and> full_listing (pg_users t) s us"
proof -
  have "\<not> (ns_Valid (status_filter s) \<and> \<not> pe_text_ok e (ns_String (status_filter s)))"
    using assms(3) by (auto simp: status_filter_def split: option.splits)
  then show ?thesis
    using assms ordered_listing [of t "pe_order e" s]
    by (intro exI [of _ "map toDomainUser
          (pe_order e (filter (status_match (status_filter s)) t))"])
      (simp add: pg_good_def pg_List_def run_stmt_good select_page_def take_map drop_map)
qed

lemma pg_Update_contract:
  assumes "pg_good e" and ok: "table_ok t" and st: "pg_storable e u"
  shows "update_result (pg_users t) u (pg_users (fst (pg_Update e u t))) (snd (pg_Update e u t))"
proof -
  have good: "pe_fault e = None" using assms(1) by (simp add: pg_good_def)
  have id: "up_UserID (update_params u) = u_UserId u" by (simp add: update_params_def)
  show ?thesis
  proof (cases "live_rows t (u_UserId u)")
    case None
    then show ?thesis
      using storable_update [OF st]
      by (simp add: update_result_def pg_Update_def run_stmt_good [OF good] update_row_def
          first_row_target id pg_users_def)
  next
    case (Some old)
    obtain r where upd: "update_row e (update_params u) t =
        (if unique_violation (filter (\<lambda>q. \<not> target (u_UserId u) q) t) r
         then (t, Inl (PqError ''23505''))
         else (map (\<lambda>q. if target (u_UserId u) q then r else q) t, Inr r))"
      and r: "target (u_UserId u) r" "du_CreatedAt r = du_CreatedAt old"
        "du_FirstName r = u_FirstName u" "du_LastName r = u_LastName u" "du_Email r = u_Email u"
        "du_Phone r = toNullString (u_Phone u)" "du_Age r = toNullInt32 (u_Age u)"
        "du_Status r = u_Status u"
      using update_row_fit [OF storable_update [OF st], unfolded id, OF Some] by auto
    have viol: "unique_violation (filter (\<lambda>q. \<not> target (u_UserId u) q) t) r \<longleftrightarrow>
        \<not> email_free (pg_users t) (u_UserId u) (u_Email u)"
      using unique_violation_others [OF ok Some] r by simp
    have data: "same_data (toDomainUser r) u"
      using r storable_age [OF st]
      by (simp add: same_data_def toDomainUser_def fromNullString_toNullString)
    have "live_rows (map (\<lambda>q. if target (u_UserId u) q then r else q) t)
        = (live_rows t)(u_UserId u \<mapsto> r)"
      using Some r(1) by (intro live_rows_replace) auto
    then show ?thesis
      using Some upd viol data r(1,2)
      by (auto simp: update_result_def pg_Update_def run_stmt_good [OF good] pg_users_def
          fromNullTime_def)
  qed
qed

lemma pg_Delete_contract:
  assumes "pg_good e"
  shows "delete_result (pg_users t) i (pg_users (fst (pg_Delete e i t))) (snd (pg_Delete e i t))"
proof -
  have good: "pe_fault e = None" using assms by (simp add: pg_good_def)
  have live: "live_rows (fst (delete_row e i t)) = (live_rows t)(i := None)"
    by (simp add: delete_row_def live_rows_remove)
  have del: "pg_Delete e i t = (fst (delete_row e i t),
      if filter (target i) t = [] then Inl ErrUserNotFound else Inr ())"
    by (simp add: pg_Delete_def run_stmt_good [OF good] delete_row_def)
  show ?thesis
  proof (cases "live_rows t i")
    case None
    then have "filter (target i) t = []" by (simp add: live_rows_None filter_empty_conv)
    with None live show ?thesis
      by (auto simp: delete_result_def del pg_users_def fun_eq_iff)
  next
    case (Some r)
    then have "filter (target i) t \<noteq> []"
      by (auto simp: filter_empty_conv dest: live_rows_SomeD)
    with Some live show ?thesis
      by (auto simp: delete_result_def del pg_users_def fun_eq_iff)
  qed
qed

lemma pg_Create_ok: "table_ok t \<Longrightarrow> table_ok (fst (pg_Create e u t))"
  using run_stmt_ok [of t "insert_user e (create_params u)" e] insert_user_ok
  by (fastforce simp: pg_Create_def split: prod.split sum.split)

lemma pg_Update_ok: "table_ok t \<Longrightarrow> table_ok (fst (pg_Update e u t))"
  using run_stmt_ok [of t "update_row e (update_params u)" e] update_row_ok
  by (fastforce simp: pg_Update_def split: prod.split sum.split)

lemma pg_Delete_ok: "table_ok t \<Longrightarrow> table_ok (fst (pg_Delete e i t))"
  using run_stmt_ok [of t "delete_row e i" e] delete_row_ok
  by (fastforce simp: pg_Delete_def split: prod.split sum.split)

lemma run_stmt_read:
  "(\<And>t. fst (st t) = t) \<Longrightarrow> run_stmt e st t = (t, snd (run_stmt e st t))"
  by (auto simp: run_stmt_def prod_eq_iff split: option.split pg_fault.split)

lemma pg_Create_appends:
  assumes "pg_good e" and "pg_Create e u t = (t', Inr w)"
  shows "\<exists>q. t' = t @ [q] \<and> w = toDomainUser q \<and> \<not> unique_violation t q"
proof -
  obtain q where "insert_user e (create_params u) t = (t', Inr q)" "w = toDomainUser q"
    using assms by (auto simp: pg_Create_def pg_good_def run_stmt_good split: prod.splits sum.splits
        if_splits)
  then show ?thesis using insert_user_live by blast
qed

lemma toDomainUser_zero: "toDomainUser zero_db_user = zero_user"
  by (simp add: toDomainUser_def zero_db_user_def zero_user_def null_time_zero_def
      fromNullString_def fromNullInt32_def fromNullTime_def)

lemma pg_reads:
  "fst (pg_GetByID e i t) = t" "fst (pg_GetByEmail e em t) = t"
  "fst (pg_List e s l off t) = t" "fst (pg_ListAll e s t) = t"
proof -
  have "fst (run_stmt e (select_by_id i) t) = t" "fst (run_stmt e (select_by_email e em) t) = t"
    "fst (run_stmt e (select_page e l off (status_filter s)) t) = t"
    "fst (run_stmt e (select_all e (status_filter s)) t) = t"
    by (subst run_stmt_read; simp add: select_by_id_def select_by_email_def select_page_def
        select_all_def)+
  then show "fst (pg_GetByID e i t) = t" "fst (pg_GetByEmail e em t) = t"
    "fst (pg_List e s l off t) = t" "fst (pg_ListAll e s t) = t"
    by (auto simp: pg_GetByID_def pg_GetByEmail_def pg_List_def pg_ListAll_def
        split: prod.splits sum.splits)
qed

lemma pg_users_emails:
  assumes "table_ok t" "pg_users t i = Some u" "pg_users t j = Some v" "u_Email u = u_Email v"
  shows "i = j"
proof -
  obtain r q where "r \<in> set t" "target i r" "u = toDomainUser r"
    and "q \<in> set t" "target j q" "v = toDomainUser q"
    using assms(2,3) by (blast dest: pg_users_SomeD)
  with table_okD(2) [OF assms(1)] assms(4) show ?thesis
    by (auto simp: distinct_map inj_on_def)
qed

interpretation pg: user_repository_contract pg_users table_ok pg_good pg_fresh pg_storable
    pe_text_ok NewPostgresRepository
proof (unfold_locales, goal_cases)
  case (1 t i u)
  then show ?case by (auto dest: pg_users_SomeD)
next
  case (2 t i u j v)
  then show ?case by (rule pg_users_emails)
next
  case (3 e u v)
  then show ?case by (auto simp: pg_storable_def same_data_def)
qed (simp_all add: store_simps pg_Create_ok pg_Update_ok pg_Delete_ok pg_reads
    pg_Create_contract pg_GetByID_contract pg_GetByEmail_contract pg_ListAll_contract
    pg_List_contract pg_Update_contract pg_Delete_contract)

subsection \<open>Concrete calls\<close>

text \<open>
  A call without a fault, for concrete inputs: the rows are put newest first by insertion, and
  the server takes every string without a NUL byte.
\<close>

fun insert_newest :: "db_user \<Rightarrow> table \<Rightarrow> table" where
  "insert_newest r [] = [r]"
| "insert_newest r (q # qs) =
     (if du_CreatedAt q \<le> du_CreatedAt r then r # q # qs else q # insert_newest r qs)"

definition newest_first :: "table \<Rightarrow> table" where
  "newest_first t = foldr insert_newest t []"

definition plain_env :: "uuid \<Rightarrow> pg_env" where
  "plain_env i =
     \<lparr>pe_uuid = i, pe_now = GoTime 1700000000 0 0, pe_text_ok = (\<lambda>s. CHR 0x00 \<notin> set s),
      pe_order = newest_first, pe_fault = None\<rparr>"

lemma mset_insert_newest: "mset (insert_newest r t) = add_mset r (mset t)"
  by (induction t) auto

lemma set_insert_newest: "set (insert_newest r t) = insert r (set t)"
  by (metis mset_insert_newest set_mset_add_mset_insert set_mset_mset)

lemma sorted_insert_newest:
  "sorted_wrt (\<lambda>a b. du_CreatedAt b \<le> du_CreatedAt a) t \<Longrightarrow>
     sorted_wrt (\<lambda>a b. du_CreatedAt b \<le> du_CreatedAt a) (insert_newest r t)"
proof (induction t)
  case (Cons q t)
  show ?case
  proof (cases "du_CreatedAt q \<le> du_CreatedAt r")
    case True
    with Cons.prems show ?thesis by (auto intro: order_trans)
  next
    case False
    then have "du_CreatedAt r \<le> du_CreatedAt q" using gotime_total by blast
    with False Cons show ?thesis by (auto simp: set_insert_newest)
  qed
qed simp

lemma order_ok_newest_first: "order_ok newest_first"
proof -
  have "mset (newest_first t) = mset t
      \<and> sorted_wrt (\<lambda>a b. du_CreatedAt b \<le> du_CreatedAt a) (newest_first t)" for t
    by (induction t) (simp_all add: newest_first_def mset_insert_newest sorted_insert_newest)
  then show ?thesis by (simp add: order_ok_def)
qed

lemma plain_env_good [simp]: "pg_good (plain_env i)"
  by (simp add: pg_good_def plain_env_def order_ok_newest_first)

lemma plain_env_simps [simp]:
  "pe_uuid (plain_env i) = i" "pe_now (plain_env i) = GoTime 1700000000 0 0"
  "pe_text_ok (plain_env i) s \<longleftrightarrow> CHR 0x00 \<notin> set s" "pe_fault (plain_env i) = None"
  by (simp_all add: plain_env_def)

definition ada :: user where
  "ada = new_user ''Ada'' ''Lovelace'' ''ada@example.org'' None (Some 36) ''ACTIVE''"

lemma storable_ada [simp]: "pg_storable (plain_env i) ada"
  by (simp add: pg_storable_def ada_def new_user_def zero_user_def IsValid_iff
      rune_count_def rune_start_def option.pred_map)

definition ada_row :: db_user where
  "ada_row =
     \<lparr>du_UserID = 1, du_FirstName = ''Ada'', du_LastName = ''Lovelace'',
      du_Email = ''ada@example.org'', du_Phone = \<lparr>ns_String = '''', ns_Valid = False\<rparr>,
      du_Age = \<lparr>ni_Int32 = 36, ni_Valid = True\<rparr>, du_Status = ''ACTIVE'',
      du_DeletedAt = null_time_zero, du_CreatedAt = GoTime 1700000000 0 0,
      du_UpdatedAt = GoTime 1700000000 0 0\<rparr>"

lemma ada_created: "pg_Create (plain_env 1) ada [] = ([ada_row], Inr (toDomainUser ada_row))"
  by code_simp

lemma ada_row_ok [simp]: "table_ok [ada_row]"
  using pg_Create_ok [of "[]" "plain_env 1" ada] by (simp add: ada_created)

lemma pg_users_ada: "pg_users [ada_row] = [1 \<mapsto> toDomainUser ada_row]"
  by (simp add: pg_users_def live_rows_Cons ada_row_def null_time_zero_def fun_eq_iff)

subsection \<open>Properties\<close>

text \<open>
  C14. \<open>Create\<close> on a call without a failure: data the table accepts is stored for a new id,
  unless a live user has the e-mail address, and then the table is unchanged and the error is
  \<open>ErrEmailAlreadyExists\<close>.
\<close>

theorem create_stores_user:
  "\<lbrakk>pg_good e; table_ok t; pg_storable e u\<rbrakk> \<Longrightarrow>
     create_result (pg_users t) u (pg_fresh e t) (pg_users (fst (pg_Create e u t)))
       (snd (pg_Create e u t))"
  by (rule pg.repo_create [unfolded NewPostgresRepository_simps])

theorem create_stores_user_witness:
  "create_result Map.empty ada True (pg_users (fst (pg_Create (plain_env 1) ada [])))
     (snd (pg_Create (plain_env 1) ada []))"
  using create_stores_user [of "plain_env 1" "[]" ada]
  by (simp add: pg_fresh_def pg_users_def)

text \<open>
  C15. \<open>Update\<close> replaces the data of the live user with the id and keeps its creation time, or
  leaves the table and reports an unknown id or an e-mail address in use by another live user.
\<close>

theorem update_replaces_user:
  "\<lbrakk>pg_good e; table_ok t; pg_storable e u\<rbrakk> \<Longrightarrow>
     update_result (pg_users t) u (pg_users (fst (pg_Update e u t))) (snd (pg_Update e u t))"
  by (rule pg.repo_update [unfolded NewPostgresRepository_simps])

theorem update_replaces_user_witness:
  "update_result [1 \<mapsto> toDomainUser ada_row] (ada\<lparr>u_UserId := 1, u_Status := ''SUSPENDED''\<rparr>)
     (pg_users (fst (pg_Update (plain_env 2) (ada\<lparr>u_UserId := 1, u_Status := ''SUSPENDED''\<rparr>)
        [ada_row])))
     (snd (pg_Update (plain_env 2) (ada\<lparr>u_UserId := 1, u_Status := ''SUSPENDED''\<rparr>) [ada_row]))"
proof -
  have "pg_storable (plain_env 2) (ada\<lparr>u_UserId := 1, u_Status := ''SUSPENDED''\<rparr>)"
    using storable_ada [of 2] by (simp add: pg_storable_def IsValid_iff)
  then show ?thesis
    using update_replaces_user [of "plain_env 2" "[ada_row]"] by (simp add: pg_users_ada)
qed

text \<open>
  C16. A page of \<open>List\<close>, for any status filter, limit and offset that are not negative, is that
  segment of a listing that has each selected live user once, newest first.
\<close>

theorem list_pages_a_full_listing:
  "\<lbrakk>pg_good e; table_ok t; pred_option (pe_text_ok e) s; 0 \<le> sint l; 0 \<le> sint off\<rbrakk> \<Longrightarrow>
     \<exists>us. snd (pg_List e s l off t) = Inr (take (nat (sint l)) (drop (nat (sint off)) us))
        \<and> full_listing (pg_users t) s us"
  by (rule pg.repo_list [unfolded NewPostgresRepository_simps])

theorem list_pages_a_full_listing_witness:
  "\<exists>us. snd (pg_List (plain_env 1) (Some ''ACTIVE'') 10 0 [ada_row]) =
       Inr (take (nat (sint (10 :: go_int32))) (drop (nat (sint (0 :: go_int32))) us))
     \<and> full_listing (pg_users [ada_row]) (Some ''ACTIVE'') us"
  by (rule list_pages_a_full_listing) simp_all

text \<open>
  C17. A delete keeps the row and frees its e-mail address: a later create with that address
  succeeds under another id.
\<close>

theorem deleted_email_is_free:
  assumes "pg_good e" "pg_good e'" "table_ok t" and u: "pg_users t i = Some u"
    and v: "pg_storable e' v" "u_Email v = u_Email u" and fresh: "pg_fresh e' t"
  shows "\<exists>t' w. pg_Create e' v (fst (pg_Delete e i t)) = (t', Inr w)
    \<and> u_UserId w \<noteq> i \<and> pg_users t' (u_UserId w) = Some w \<and> pg_users t' i = None
    \<and> (\<exists>r\<in>set t'. du_UserID r = i \<and> \<not> live r)"
proof -
  define t1 where "t1 = fst (pg_Delete e i t)"
  have ok: "table_ok t1" unfolding t1_def using assms(3) by (rule pg_Delete_ok)
  have m: "pg_users t1 = (pg_users t)(i := None)"
    using pg_Delete_contract [OF assms(1), of t i] u by (simp add: t1_def delete_result_def)
  have t1: "t1 = fst (delete_row e i t)"
    using assms(1) by (auto simp: t1_def pg_Delete_def pg_good_def run_stmt_good delete_row_def)
  obtain r where r: "r \<in> set t" "target i r" using u by (auto dest: pg_users_SomeD)
  then have "r\<lparr>du_DeletedAt := \<lparr>nt_Time = pe_now e, nt_Valid = True\<rparr>\<rparr> \<in> set t1"
    by (auto simp: t1 delete_row_def intro!: image_eqI [of _ _ r])
  then have gone: "\<exists>r\<in>set t1. du_UserID r = i \<and> \<not> live r"
    using r by (intro bexI) auto
  have "du_UserID ` set t1 = du_UserID ` set t"
    using delete_row_ids [of e i t] unfolding t1 by (metis list.set_map)
  then have fresh1: "pg_fresh e' t1" using fresh unfolding pg_fresh_def by (metis imageE imageI)
  have "u_Email w \<noteq> u_Email v" if "w \<in> ran (pg_users t1)" for w
    using that m v(2) pg_users_emails [OF assms(3) _ u] by (auto simp: ran_def split: if_splits)
  moreover obtain t' x where c: "pg_Create e' v t1 = (t', x)" by fastforce
  ultimately obtain w where w: "x = Inr w" "pg_users t' = (pg_users t1)(u_UserId w \<mapsto> w)"
    using pg_Create_contract [OF assms(2) ok v(1)] fresh1
    by (cases x) (auto simp: create_result_def)
  obtain q where "t' = t1 @ [q]" "w = toDomainUser q" "\<not> unique_violation t1 q"
    using pg_Create_appends [OF assms(2) c [unfolded w(1)]] by blast
  moreover from this gone have "u_UserId w \<noteq> i" by (auto simp: unique_violation_def)
  ultimately show ?thesis
    using c w m gone unfolding t1_def by (intro exI [of _ t'] exI [of _ w]) auto
qed

theorem deleted_email_is_free_witness:
  "\<exists>t' w. pg_Create (plain_env 2) ada (fst (pg_Delete (plain_env 3) 1 [ada_row])) = (t', Inr w)
    \<and> u_UserId w \<noteq> 1 \<and> pg_users t' (u_UserId w) = Some w \<and> pg_users t' 1 = None
    \<and> (\<exists>r\<in>set t'. du_UserID r = 1 \<and> \<not> live r)"
proof (rule deleted_email_is_free [of "plain_env 3" "plain_env 2" "[ada_row]" 1])
  show "pg_users [ada_row] 1 = Some (toDomainUser ada_row)" by (simp add: pg_users_ada)
  show "u_Email ada = u_Email (toDomainUser ada_row)"
    by (simp add: ada_def ada_row_def new_user_def)
  show "pg_fresh (plain_env 2) [ada_row]" by (simp add: pg_fresh_def ada_row_def)
qed simp_all

text \<open>
  \<open>GetByID\<close> looks for \<open>sql.ErrNoRows\<close> only: after any other failure of the query it
  returns the zero user and no error.
\<close>

theorem get_by_id_swallows_failures:
  assumes "pe_fault e = Some (FailBefore err)" and "err \<noteq> ErrNoRows"
  shows "pg_GetByID e i t = (t, Inr zero_user)"
  using assms by (simp add: pg_GetByID_def run_stmt_def toDomainUser_zero)

theorem get_by_id_swallows_failures_witness:
  "pg_GetByID ((plain_env 1)\<lparr>pe_fault := Some (FailBefore (DriverError ''timeout''))\<rparr>) 7 []
     = ([], Inr zero_user)"
  by (rule get_by_id_swallows_failures [of _ "DriverError ''timeout''"]) simp_all

text \<open>
  \<open>Update\<close> looks for \<open>sql.ErrNoRows\<close> and 23505 only: when the server refuses the
  values for any other reason (a failed check, a value too long, bytes that are no text), the
  table is unchanged and the result is the zero user and no error.
\<close>

theorem update_swallows_refusals:
  assumes "pe_fault e = None" and "snd (update_row e (update_params u) t) = Inl err"
    and "err \<noteq> ErrNoRows" and "err \<noteq> PqError ''23505''"
  shows "pg_Update e u t = (t, Inr zero_user)"
proof -
  have "update_row e (update_params u) t = (t, Inl err)"
    using assms(2) update_row_unchanged by (metis prod.collapse)
  with assms show ?thesis by (simp add: pg_Update_def run_stmt_def toDomainUser_zero)
qed

theorem update_swallows_refusals_witness:
  "pg_Update (plain_env 1) (ada\<lparr>u_FirstName := [CHR 0x00]\<rparr>) [] = ([], Inr zero_user)"
  by (rule update_swallows_refusals [of _ _ _ "PqError ''22021''"])
    (simp_all add: update_row_def bad_text_def)

end
