(* ===== verification/User_System.thy ===== *)
theory User_System
  imports Service_Spec Postgres_Repository
begin

text \<open>
  The user service on PostgreSQL together with its clients: messages served one after the
  other, the events they publish, the RPC client over the handlers, and the cache over both.
  Whatever uuid package the services use is assumed to print and parse canonical ids
  (\<open>uuid_documented\<close>), the validator to follow its documentation
  (\<open>validator_documented\<close>).
\<close>

definition pg_service :: "(pg_env, table) user_service" where
  "pg_service = NewService NewPostgresRepository"

interpretation users: user_service_contract pg_users table_ok pg_good pg_fresh pg_storable
    pe_text_ok pg_service
  unfolding pg_service_def by (rule pg.service.user_service_contract_axioms)

definition uuid_documented :: "handler_deps \<Rightarrow> (string \<Rightarrow> bool) \<Rightarrow> bool" where
  "uuid_documented d is_uuid \<longleftrightarrow>
     (\<forall>i. hd_uuid_parse d (hd_uuid_string d i) = Some i)
     \<and> (\<forall>s. is_uuid s \<longrightarrow> (\<exists>i. hd_uuid_parse d s = Some i \<and> hd_uuid_string d i = s))"

definition documented ::
  "handler_deps \<Rightarrow> (string \<Rightarrow> bool) \<Rightarrow> (string \<Rightarrow> bool) \<Rightarrow> bool" where
  "documented d is_email is_uuid \<longleftrightarrow>
     validator_documented (hd_validate d) is_email is_uuid \<and> uuid_documented d is_uuid"

subsection \<open>The view a client has of the users\<close>

text \<open>The users as a map from printed ids to what the handlers send of them.\<close>

definition client_view :: "handler_deps \<Rightarrow> (uuid \<rightharpoonup> user) \<Rightarrow> cache" where
  "client_view d m = (\<lambda>k.
     case hd_uuid_parse d k of
       None \<Rightarrow> None
     | Some i \<Rightarrow> if hd_uuid_string d i = k then map_option (toDTO d) (m i) else None)"

lemma client_view_empty [cache_simps]: "client_view d Map.empty = newCache"
  by (auto simp: client_view_def newCache_def split: option.split)

lemma client_view_string [cache_simps]:
  "uuid_documented d is_uuid \<Longrightarrow>
     client_view d m (hd_uuid_string d i) = map_option (toDTO d) (m i)"
  by (simp add: client_view_def uuid_documented_def)

lemma client_view_upd:
  assumes "uuid_documented d is_uuid" and "u_UserId v = i"
  shows "cache_set (toDTO d v) (client_view d m) = client_view d (m(i \<mapsto> v))"
proof
  fix k
  show "cache_set (toDTO d v) (client_view d m) k = client_view d (m(i \<mapsto> v)) k"
    using assms by (auto simp: cache_set_def toDTO_def client_view_def uuid_documented_def
        split: option.split)
qed

lemma client_view_del:
  assumes "hd_uuid_parse d s = Some i" and "hd_uuid_string d i = s"
  shows "cache_delete s (client_view d m) = client_view d (m(i := None))"
  using assms by (auto simp: cache_delete_def client_view_def fun_eq_iff split: option.split)

lemma ran_client_view:
  assumes "uuid_documented d is_uuid"
  shows "ran (client_view d m) = toDTO d ` ran m"
proof
  show "ran (client_view d m) \<subseteq> toDTO d ` ran m"
    by (fastforce simp: ran_def client_view_def split: option.splits if_splits)
  show "toDTO d ` ran m \<subseteq> ran (client_view d m)"
  proof
    fix x
    assume "x \<in> toDTO d ` ran m"
    then obtain i u where "m i = Some u" "x = toDTO d u" by (auto simp: ran_def)
    then show "x \<in> ran (client_view d m)"
      using client_view_string [OF assms, of m i] by (intro ranI) simp
  qed
qed

text \<open>An operation's event turns the view of the old map into the view of the new one.\<close>

fun canonical :: "handler_deps \<Rightarrow> operation \<Rightarrow> bool" where
  "canonical d (DeleteOp s) = (\<exists>i. hd_uuid_parse d s = Some i \<and> hd_uuid_string d i = s)"
| "canonical d _ = True"

lemma serve_event_view:
  assumes "serve (hd_uuid_parse d) fr m oper a m'" and "uuid_documented d is_uuid"
    and "canonical d oper"
  shows "fold apply_msg (op_event d oper a) (client_view d m) = client_view d m'"
  using assms
proof (cases rule: serve.cases)
  case (create v q)
  then show ?thesis by (simp add: cache_simps client_view_upd [OF assms(2)])
next
  case (update q i old v)
  then show ?thesis by (simp add: cache_simps client_view_upd [OF assms(2)])
next
  case (delete s i u)
  with assms(3) have "hd_uuid_string d i = s" by auto
  with delete show ?thesis by (simp add: cache_simps client_view_del)
qed auto

subsection \<open>Requests the service on PostgreSQL can serve\<close>

definition texts_ok :: "pg_env \<Rightarrow> user \<Rightarrow> bool" where
  "texts_ok e u \<longleftrightarrow>
     pe_text_ok e (u_FirstName u) \<and> pe_text_ok e (u_LastName u) \<and> pe_text_ok e (u_Email u)
     \<and> pred_option (pe_text_ok e) (u_Phone u) \<and> pe_text_ok e (u_Status u)"

text \<open>The server takes the strings of the request as text.\<close>

fun op_texts :: "pg_env \<Rightarrow> operation \<Rightarrow> bool" where
  "op_texts e (CreateOp q) = texts_ok e (created_user q)"
| "op_texts e (UpdateOp q) = texts_ok e (update_user 0 q)"
| "op_texts e (EmailOp em) = pe_text_ok e em"
| "op_texts e (ListOp q) = pred_option (pe_text_ok e) (lr_Status q)"
| "op_texts e _ = True"

lemma accepted_suitable:
  assumes "validator_documented (hd_validate d) is_email is_uuid" "accepted d oper" "op_texts e oper"
  shows "suitable pg_storable pe_text_ok d e oper"
proof (cases oper)
  case (CreateOp q)
  then show ?thesis
    using assms create_fields_ok [OF assms(1), of q]
    by (auto simp: pg_storable_def texts_ok_def created_user_def new_user_def IsValid_iff
        statuses_def status_defs)
next
  case (UpdateOp q)
  then show ?thesis
    using assms update_fields_ok [OF assms(1), of q]
    by (auto simp: pg_storable_def texts_ok_def update_user_def new_user_def IsValid_iff
        statuses_def)
next
  case (ListOp q)
  then show ?thesis
    using assms list_fields_ok [OF assms(1), of q] by simp
qed (use assms in simp_all)

lemma accepted_canonical:
  assumes "documented d is_email is_uuid" and "accepted d oper"
  shows "canonical d oper"
proof (cases oper)
  case (DeleteOp s)
  then have "is_uuid s"
    using assms id_fields_ok [of "hd_validate d" is_email is_uuid "\<lparr>ir_UserID = s\<rparr>"]
    by (simp add: documented_def)
  with DeleteOp assms(1) show ?thesis by (simp add: documented_def uuid_documented_def)
qed simp_all

lemma pg_deliver_serves:
  assumes "pg_good e" "table_ok t" "validator_documented (hd_validate d) is_email is_uuid"
    and "decoded s data = Some oper" "accepted d oper" "op_texts e oper"
  shows "\<exists>a. snd (deliver handler_entries d pg_service e s data t) = op_effects d oper a
           \<and> serve (hd_uuid_parse d) (pg_fresh e t) (pg_users t) oper a
               (pg_users (fst (deliver handler_entries d pg_service e s data t)))"
  using assms by (intro users.deliver_serves accepted_suitable)

subsection \<open>Messages and the events they publish\<close>

fun published :: "effect list \<Rightarrow> (string \<times> json) list" where
  "published [] = []"
| "published (Reply j # es) = published es"
| "published (Publish s j # es) = (s, j) # published es"

lemma published_append [simp]: "published (es @ fs) = published es @ published fs"
  by (induction es rule: published.induct) simp_all

lemma published_map [simp]: "published (map (\<lambda>(s, j). Publish s j) evs) = evs"
  by (induction evs) auto

lemma published_replies [rpc_simps]:
  "published (user_error e # es) = published es"
  "published (users_error e # es) = published es"
  "published (delete_error e # es) = published es"
  "published (user_reply u # es) = published es"
  "published (users_reply us # es) = published es"
  "published (error_reply s e # es) = published es"
  by (simp_all add: user_error_def users_error_def delete_error_def user_reply_def users_reply_def
      error_reply_def)

lemma published_op_effects [rpc_simps]: "published (op_effects d oper a) = op_event d oper a"
  by (cases a) (simp_all add: op_effects_def rpc_simps)

text \<open>
  Messages in the order the service takes them, each with its own call environment: the
  table they leave and the events they publish.
\<close>

fun serve_messages ::
  "handler_deps \<Rightarrow> (pg_env \<times> string \<times> json option) list \<Rightarrow> table
     \<Rightarrow> table \<times> (string \<times> json) list" where
  "serve_messages d [] t = (t, [])"
| "serve_messages d ((e, s, data) # ms) t =
     (case deliver handler_entries d pg_service e s data t of
        (t', es) \<Rightarrow>
          (case serve_messages d ms t' of (t'', evs) \<Rightarrow> (t'', published es @ evs)))"

lemma serve_messages_ok: "table_ok t \<Longrightarrow> table_ok (fst (serve_messages d ms t))"
proof (induction d ms t rule: serve_messages.induct)
  case (2 d e s data ms t)
  then have "table_ok (fst (deliver handler_entries d pg_service e s data t))"
    by (intro users.deliver_inv)
  with 2 show ?case by (auto split: prod.split)
qed simp

text \<open>A message that meets no infrastructure failure and brings no unstorable text.\<close>

definition benign :: "handler_deps \<Rightarrow> pg_env \<times> string \<times> json option \<Rightarrow> bool" where
  "benign d msg \<longleftrightarrow>
     (case msg of (e, s, data) \<Rightarrow>
        pg_good e \<and> (case decoded s data of None \<Rightarrow> True | Some oper \<Rightarrow> op_texts e oper))"

lemma deliver_view:
  assumes doc: "documented d is_email is_uuid" and "table_ok t" and "benign d (e, s, data)"
    and del: "deliver handler_entries d pg_service e s data t = (t', es)"
  shows "fold apply_msg (published es) (client_view d (pg_users t)) = client_view d (pg_users t')"
proof (cases "s \<in> rpc_subjects")
  case False
  then show ?thesis using del by (simp add: rpc_simps)
next
  case True
  show ?thesis
  proof (cases "refused d s data")
    case True
    then show ?thesis
      using deliver_refused [of d s data pg_service e t] del by (auto simp: rpc_simps)
  next
    case False
    with True obtain oper where oper: "decoded s data = Some oper" "accepted d oper"
      by (auto simp: refused_def split: option.splits)
    with assms obtain a where "es = op_effects d oper a"
      and "serve (hd_uuid_parse d) (pg_fresh e t) (pg_users t) oper a (pg_users t')"
      using pg_deliver_serves [of e t d is_email is_uuid s data oper]
      by (auto simp: benign_def documented_def)
    then show ?thesis
      using serve_event_view [of d _ _ oper a _ is_uuid] accepted_canonical [OF doc oper(2)] doc
      by (simp add: rpc_simps documented_def)
  qed
qed

lemma serve_messages_view:
  assumes doc: "documented d is_email is_uuid"
  shows "\<lbrakk>table_ok t; list_all (benign d) ms; serve_messages d ms t = (t', evs)\<rbrakk> \<Longrightarrow>
    fold apply_msg evs (client_view d (pg_users t)) = client_view d (pg_users t')"
proof (induction ms arbitrary: t evs)
  case (Cons msg ms)
  obtain e s data where msg: "msg = (e, s, data)" using prod_cases3 by blast
  obtain t1 es where del: "deliver handler_entries d pg_service e s data t = (t1, es)" by fastforce
  obtain evs1 where rest: "serve_messages d ms t1 = (t', evs1)" and evs: "evs = published es @ evs1"
    using Cons.prems(3) del msg by (auto split: prod.splits)
  have "table_ok t1"
    using users.deliver_inv [OF Cons.prems(1), of d e s data] del by simp
  then have "fold apply_msg evs1 (client_view d (pg_users t1)) = client_view d (pg_users t')"
    using Cons.prems(2) rest by (intro Cons.IH) simp_all
  moreover have "fold apply_msg (published es) (client_view d (pg_users t))
      = client_view d (pg_users t1)"
    using Cons.prems(1,2) msg by (intro deliver_view [OF doc _ _ del]) simp_all
  ultimately show ?case using evs by simp
qed simp

subsection \<open>The client over the handlers\<close>

fun replies :: "effect list \<Rightarrow> json list" where
  "replies [] = []"
| "replies (Reply j # es) = j # replies es"
| "replies (Publish s j # es) = replies es"

text \<open>
  A request to the service as the client's transport: the world is the service's state and
  the events published so far, the answer is the first reply. \<open>c\<close> is the environment of
  this call.
\<close>

definition service_rpc ::
  "handler_deps \<Rightarrow> ('c, 'db) user_service \<Rightarrow> 'c \<Rightarrow> ('db \<times> (string \<times> json) list) transport" where
  "service_rpc d svc c s j w =
     (case deliver handler_entries d svc c s (Some j) (fst w) of
        (db', es) \<Rightarrow>
          ((db', snd w @ published es),
           case replies es of
             [] \<Rightarrow> Inl ''nats: no responders available for request''
           | r # _ \<Rightarrow> Inr (Some r)))"

text \<open>What the client reports of an answer.\<close>

fun told_user :: "handler_deps \<Rightarrow> answer \<Rightarrow> client_error + user_dto \<Rightarrow> bool" where
  "told_user d (UserAnswer u) r = (r = Inr (toDTO d u))"
| "told_user d (Failed err) r = (r = Inl (mapRPCError (mapDomainErr err)))"
| "told_user d _ r = False"

fun told_users :: "handler_deps \<Rightarrow> answer \<Rightarrow> client_error + user_dto list option \<Rightarrow> bool" where
  "told_users d (UsersAnswer us) r = (r = Inr (Some (map (toDTO d) us)))"
| "told_users d (Failed err) r = (r = Inl (mapRPCError (mapDomainErr err)))"
| "told_users d _ r = False"

fun told_done :: "handler_deps \<Rightarrow> answer \<Rightarrow> client_error + unit \<Rightarrow> bool" where
  "told_done d Done r = (r = Inr ())"
| "told_done d (Failed err) r = (r = Inl (mapRPCError (mapDomainErr err)))"
| "told_done d _ r = False"

lemma service_rpc_reply:
  assumes "deliver handler_entries d svc c s (Some j) db = (db', Reply r # es)"
  shows "service_rpc d svc c s j (db, log) = ((db', log @ published es), Inr (Some r))"
  using assms by (simp add: service_rpc_def)

definition good_call ::
  "handler_deps \<Rightarrow> (string \<Rightarrow> bool) \<Rightarrow> (string \<Rightarrow> bool) \<Rightarrow> pg_env \<Rightarrow> table \<Rightarrow> operation \<Rightarrow> bool" where
  "good_call d is_email is_uuid e t oper \<longleftrightarrow>
     documented d is_email is_uuid \<and> pg_good e \<and> table_ok t \<and> accepted d oper \<and> op_texts e oper"

lemma op_reply_Reply: "\<exists>j. op_reply d oper a = Reply j"
  by (cases a) (simp_all add: user_reply_def users_reply_def error_reply_def user_error_def
      users_error_def delete_error_def)

lemma pg_rpc_serves:
  assumes "good_call d is_email is_uuid e t oper"
  shows "\<exists>a t' j. service_rpc d pg_service e (op_subject oper) (op_payload oper) (t, log)
           = ((t', log @ op_event d oper a), Inr (Some j))
         \<and> op_reply d oper a = Reply j
         \<and> serve (hd_uuid_parse d) (pg_fresh e t) (pg_users t) oper a (pg_users t')"
proof -
  obtain t' es where del: "deliver handler_entries d pg_service e (op_subject oper)
      (Some (op_payload oper)) t = (t', es)" by fastforce
  with assms obtain a where es: "es = op_effects d oper a"
    and s: "serve (hd_uuid_parse d) (pg_fresh e t) (pg_users t) oper a (pg_users t')"
    using pg_deliver_serves [of e t d is_email is_uuid "op_subject oper" "Some (op_payload oper)" oper]
    by (auto simp: good_call_def documented_def rpc_simps)
  obtain j where j: "op_reply d oper a = Reply j" using op_reply_Reply by blast
  show ?thesis
    using service_rpc_reply [OF del [unfolded es op_effects_def j], of log] j s by auto
qed

lemma reply_json [rpc_simps]:
  "user_reply u = Reply j \<longleftrightarrow> j = enc_user_response \<lparr>resp_User = Some u, resp_Error = None\<rparr>"
  "user_error e = Reply j \<longleftrightarrow> j = enc_user_response \<lparr>resp_User = None, resp_Error = Some e\<rparr>"
  "users_reply us = Reply j \<longleftrightarrow> j = enc_users_response \<lparr>resps_Users = Some us, resps_Error = None\<rparr>"
  "users_error e = Reply j \<longleftrightarrow> j = enc_users_response \<lparr>resps_Users = None, resps_Error = Some e\<rparr>"
  "delete_error e = Reply j \<longleftrightarrow> j = enc_delete_response \<lparr>dresp_Error = Some e\<rparr>"
  by (auto simp: user_reply_def user_error_def users_reply_def users_error_def delete_error_def)

text \<open>One request of the client that the service serves, for the three reply types.\<close>

lemma client_user_request:
  assumes "service_rpc d svc c s p w = (w', Inr (Some j))" and "op_reply d oper a = Reply j"
    and "op_subject oper = s" and "s \<in> {SubjectCreateUser, SubjectGetUserByID,
      SubjectGetUserByEmail, SubjectUpdateUser}"
    and "(\<exists>u. a = UserAnswer u) \<or> (\<exists>err. a = Failed err)"
  shows "\<exists>r. user_of (snd (request (service_rpc d svc c) s p dec_user_response no_user_response w))
             = Return r
           \<and> fst (request (service_rpc d svc c) s p dec_user_response no_user_response w) = w'
           \<and> told_user d a r"
  using assms by (auto simp: rpc_simps wire_simps request_def)

lemma client_Create_serves:
  assumes "good_call d is_email is_uuid e t (CreateOp q)"
  shows "\<exists>a t' r. client_CreateUser (service_rpc d pg_service e) q (t, log)
             = ((t', log @ op_event d (CreateOp q) a), Return r)
           \<and> serve (hd_uuid_parse d) (pg_fresh e t) (pg_users t) (CreateOp q) a (pg_users t')
           \<and> told_user d a r"
proof -
  obtain a t' j where rpc: "service_rpc d pg_service e SubjectCreateUser (enc_create_request q) (t, log)
      = ((t', log @ op_event d (CreateOp q) a), Inr (Some j))"
    and j: "op_reply d (CreateOp q) a = Reply j"
    and s: "serve (hd_uuid_parse d) (pg_fresh e t) (pg_users t) (CreateOp q) a (pg_users t')"
    using pg_rpc_serves [OF assms, of log] by auto
  have "(\<exists>u. a = UserAnswer u) \<or> (\<exists>err. a = Failed err)"
    using s by (auto elim: serve_CreateE)
  from client_user_request [OF rpc j _ _ this] s show ?thesis
    by (auto simp: client_CreateUser_def split: prod.splits)
qed

lemma client_Update_serves:
  assumes "good_call d is_email is_uuid e t (UpdateOp q)"
  shows "\<exists>a t' r. client_UpdateUser (service_rpc d pg_service e) q (t, log)
             = ((t', log @ op_event d (UpdateOp q) a), Return r)
           \<and> serve (hd_uuid_parse d) (pg_fresh e t) (pg_users t) (UpdateOp q) a (pg_users t')
           \<and> told_user d a r"
proof -
  obtain a t' j where rpc: "service_rpc d pg_service e SubjectUpdateUser (enc_update_request q) (t, log)
      = ((t', log @ op_event d (UpdateOp q) a), Inr (Some j))"
    and j: "op_reply d (UpdateOp q) a = Reply j"
    and s: "serve (hd_uuid_parse d) (pg_fresh e t) (pg_users t) (UpdateOp q) a (pg_users t')"
    using pg_rpc_serves [OF assms, of log] by auto
  have "(\<exists>u. a = UserAnswer u) \<or> (\<exists>err. a = Failed err)"
    using s by (auto elim: serve_UpdateE)
  from client_user_request [OF rpc j _ _ this] s show ?thesis
    by (auto simp: client_UpdateUser_def split: prod.splits)
qed

lemma client_Delete_serves:
  assumes "good_call d is_email is_uuid e t (DeleteOp s)"
  shows "\<exists>a t' r. client_DeleteUser (service_rpc d pg_service e) s (t, log)
             = ((t', log @ op_event d (DeleteOp s) a), Return r)
           \<and> serve (hd_uuid_parse d) (pg_fresh e t) (pg_users t) (DeleteOp s) a (pg_users t')
           \<and> told_done d a r"
proof -
  obtain a t' j where rpc: "service_rpc d pg_service e SubjectDeleteUser
      (enc_id_request \<lparr>ir_UserID = s\<rparr>) (t, log) = ((t', log @ op_event d (DeleteOp s) a), Inr (Some j))"
    and j: "op_reply d (DeleteOp s) a = Reply j"
    and s: "serve (hd_uuid_parse d) (pg_fresh e t) (pg_users t) (DeleteOp s) a (pg_users t')"
    using pg_rpc_serves [OF assms, of log] by auto
  have "a = Done \<or> (\<exists>err. a = Failed err)" using s by (auto elim: serve_DeleteE)
  with rpc j s show ?thesis
    by (intro exI [of _ a]) (auto simp: client_DeleteUser_def request_def rpc_simps wire_simps)
qed

subsection \<open>The cache over the service\<close>

lemma pg_reads_table:
  "s \<notin> {SubjectCreateUser, SubjectUpdateUser, SubjectDeleteUser} \<Longrightarrow>
     fst (deliver handler_entries d pg_service e s data t) = t"
  by (cases s rule: subject_cases) (simp_all add: rpc_simps handler_reads users.svc_reads)

lemma service_rpc_reads:
  assumes "s \<notin> {SubjectCreateUser, SubjectUpdateUser, SubjectDeleteUser}"
  shows "fst (service_rpc d pg_service e s j (t, log)) = (t, log)"
proof (cases "s \<in> rpc_subjects")
  case False
  then show ?thesis by (simp add: service_rpc_def rpc_simps)
next
  case True
  obtain es where del: "deliver handler_entries d pg_service e s (Some j) t = (t, es)"
    using pg_reads_table [OF assms, of d e "Some j" t] by (metis prod.collapse)
  have "exchange s es" using deliver_exchange [of s d pg_service e "Some j" t] del by simp
  then have "published es = []"
    using True assms
    by (elim insertE emptyE) (auto simp: rpc_simps user_exchange_def users_exchange_def)
  then show ?thesis using del by (simp add: service_rpc_def)
qed

text \<open>A lookup through a cache that shows the table's users: the answer is the service's.\<close>

lemma client_Get_in_step:
  assumes good: "good_call d is_email is_uuid e t (GetOp s)"
    and cl: "cl_cache cl = Some (client_view d (pg_users t))"
  shows "\<exists>a r. client_GetUserByID (service_rpc d pg_service e) s cl (t, log)
             = ((t, log), cl, Return r)
           \<and> serve (hd_uuid_parse d) (pg_fresh e t) (pg_users t) (GetOp s) a (pg_users t)
           \<and> told_user d a r"
proof -
  have doc: "documented d is_email is_uuid" and "accepted d (GetOp s)"
    using good by (simp_all add: good_call_def)
  then have "is_uuid s"
    using id_fields_ok [of "hd_validate d" is_email is_uuid "\<lparr>ir_UserID = s\<rparr>"]
    by (simp add: documented_def)
  then obtain i where i: "hd_uuid_parse d s = Some i" "hd_uuid_string d i = s"
    using doc by (auto simp: documented_def uuid_documented_def)
  have view: "client_view d (pg_users t) s = map_option (toDTO d) (pg_users t i)"
    using i by (simp add: client_view_def)
  show ?thesis
  proof (cases "pg_users t i")
    case (Some u)
    then show ?thesis
      using i view cl serve.get [of "hd_uuid_parse d" s i "pg_users t" u]
      by (intro exI [of _ "UserAnswer u"]) (simp add: client_GetUserByID_def cache_get_def)
  next
    case None
    obtain a t' j where rpc: "service_rpc d pg_service e SubjectGetUserByID
        (enc_id_request \<lparr>ir_UserID = s\<rparr>) (t, log) = ((t', log @ op_event d (GetOp s) a), Inr (Some j))"
      and j: "op_reply d (GetOp s) a = Reply j"
      and s: "serve (hd_uuid_parse d) (pg_fresh e t) (pg_users t) (GetOp s) a (pg_users t')"
      using pg_rpc_serves [OF good, of log] by auto
    have w: "(t', log @ op_event d (GetOp s) a) = (t, log)"
      using service_rpc_reads [of SubjectGetUserByID d e "enc_id_request \<lparr>ir_UserID = s\<rparr>" t log] rpc
      by (simp add: subject_defs)
    have a: "a = Failed ErrUserNotFound" using s None i by (auto elim: serve_GetE)
    then show ?thesis
      using cl view None rpc j s w
      by (intro exI [of _ a]) (auto simp: client_GetUserByID_def cache_get_def request_def
          rpc_simps wire_simps populate_result_def)
  qed
qed

lemma status_wanted_toDTO: "status_wanted st (toDTO d u) \<longleftrightarrow> status_selects st u"
  by (auto simp: status_wanted_def status_selects_def toDTO_def split: option.split)

lemma client_view_keyed: "cache_keyed (client_view d m) \<longleftrightarrow>
    (\<forall>i u. m i = Some u \<and> hd_uuid_parse d (hd_uuid_string d i) = Some i
       \<longrightarrow> hd_uuid_string d (u_UserId u) = hd_uuid_string d i)"
  by (fastforce simp: cache_keyed_def client_view_def toDTO_def split: option.splits if_splits)

text \<open>The rows a cached listing ranges over are those of the table's listing, in some order.\<close>

lemma cached_rows:
  assumes doc: "uuid_documented d is_uuid" and ids: "\<And>i u. m i = Some u \<Longrightarrow> u_UserId u = i"
    and it: "iteration_ok it (client_view d m)" and full: "full_listing m st us"
  shows "mset (filter (status_wanted st) (cache_values it (client_view d m)))
    = mset (map (toDTO d) us)"
proof -
  let ?xs = "filter (status_wanted st) (cache_values it (client_view d m))"
  have inj: "inj (hd_uuid_string d)"
    using doc by (metis injI option.inject uuid_documented_def)
  have "set ?xs = set (map (toDTO d) us)"
    using full by (auto simp: cache_values_set [OF it] ran_client_view [OF doc] full_listing_def
        status_wanted_toDTO)
  moreover have "distinct ?xs"
    using distinct_cache_values [OF it] ids
    by (intro distinct_filter) (auto simp: client_view_keyed distinct_map)
  moreover have "distinct (map (hd_uuid_string d) (map u_UserId us))"
    using full inj by (subst distinct_map) (auto simp: full_listing_def inj_on_def)
  then have "distinct (map dto_UserID (map (toDTO d) us))"
    by (simp add: comp_def toDTO_def)
  then have "distinct (map (toDTO d) us)"
    by (simp only: distinct_map)
  ultimately show ?thesis using set_eq_iff_mset_eq_distinct by blast
qed

lemma client_List_in_step:
  assumes doc: "documented d is_email is_uuid" and ok: "table_ok t"
    and cl: "cl_cache cl = Some (client_view d (pg_users t))" "cl_fullyLoaded cl"
    and it: "iteration_ok it (client_view d (pg_users t))"
    and lim: "0 \<le> sint (lr_Limit q)" "0 \<le> sint (lr_Offset q)"
    and full: "full_listing (pg_users t) (lr_Status q) us"
  shows "\<exists>xs. client_ListUsers rpc it q cl w = (w, Return (Inr (Some
             (take (nat (sint (if lr_Limit q = 0 then defaultListLimit else lr_Limit q)))
               (drop (nat (sint (lr_Offset q))) xs)))))
           \<and> mset xs = mset (map (toDTO d) us)"
proof -
  let ?xs = "filter (status_wanted (lr_Status q)) (cache_values it (client_view d (pg_users t)))"
  let ?l = "if lr_Limit q = 0 then defaultListLimit else lr_Limit q"
  have "sint (lr_Limit q) \<noteq> 0" if "lr_Limit q \<noteq> 0"
    using that by (metis signed_eq_0_iff)
  then have l: "0 < sint ?l" using lim(1) by (auto simp: defaultListLimit_def)
  have "cache_list it (client_view d (pg_users t)) (lr_Status q) ?l (lr_Offset q)
      = Return (take (nat (sint ?l)) (drop (nat (sint (lr_Offset q))) ?xs))"
    using lim(2) l by (rule cache_list_page)
  then have "client_ListUsers rpc it q cl w =
      (w, Return (Inr (Some (take (nat (sint ?l)) (drop (nat (sint (lr_Offset q))) ?xs)))))"
    using cl by (cases "lr_Limit q = 0") (simp_all add: client_ListUsers_def)
  moreover have "mset ?xs = mset (map (toDTO d) us)"
    using doc ok it full by (intro cached_rows) (auto simp: documented_def dest: pg.inv_ids)
  ultimately show ?thesis by blast
qed

text \<open>The startup load of an empty cache: afterwards it shows the table's users.\<close>

lemma fold_cache_set:
  "distinct (map dto_UserID us) \<Longrightarrow>
     fold cache_set us c k = (case map_of (map (\<lambda>u. (dto_UserID u, u)) us) k of
        None \<Rightarrow> c k | Some u \<Rightarrow> Some u)"
proof (induction us arbitrary: c)
  case (Cons u us)
  then have "map_of (map (\<lambda>u. (dto_UserID u, u)) us) (dto_UserID u) = None"
    by (auto simp: map_of_eq_None_iff)
  with Cons show ?case by (auto simp: cache_set_def split: option.split)
qed simp

lemma fold_cache_set_listing:
  assumes doc: "uuid_documented d is_uuid" and ids: "\<And>i u. m i = Some u \<Longrightarrow> u_UserId u = i"
    and full: "full_listing m None us"
  shows "fold cache_set (map (toDTO d) us) newCache = client_view d m"
proof
  fix k
  have str: "hd_uuid_parse d (hd_uuid_string d i) = Some i" for i
    using doc by (simp add: uuid_documented_def)
  have inj: "inj (hd_uuid_string d)"
    using doc by (metis injI option.inject uuid_documented_def)
  have us: "set us = ran m" and "distinct (map u_UserId us)"
    using full by (auto simp: full_listing_def status_selects_def)
  then have "distinct (map (hd_uuid_string d) (map u_UserId us))"
    using inj by (subst distinct_map) (auto simp: inj_on_def)
  then have dist: "distinct (map dto_UserID (map (toDTO d) us))"
    by (simp add: comp_def toDTO_def)
  have "map_of (map (\<lambda>u. (dto_UserID u, u)) (map (toDTO d) us)) k = client_view d m k"
  proof (cases "client_view d m k")
    case None
    have "\<forall>u\<in>set us. k \<noteq> dto_UserID (toDTO d u)"
    proof (intro ballI notI)
      fix u
      assume u: "u \<in> set us" and "k = dto_UserID (toDTO d u)"
      moreover obtain i where "m i = Some u" using u us by (auto simp: ran_def)
      ultimately show False using None str ids by (auto simp: client_view_def toDTO_def)
    qed
    then have "k \<notin> fst ` set (map (\<lambda>u. (dto_UserID u, u)) (map (toDTO d) us))" by auto
    then show ?thesis using None by (simp only: map_of_eq_None_iff not_False_eq_True)
  next
    case (Some v)
    then obtain i u where "m i = Some u" "v = toDTO d u" "hd_uuid_string d i = k"
      by (auto simp: client_view_def split: option.splits if_splits)
    moreover from this have "(k, v) \<in> set (map (\<lambda>u. (dto_UserID u, u)) (map (toDTO d) us))"
      using us ids by (force simp: ran_def toDTO_def)
    ultimately show ?thesis using Some dist by (simp add: map_of_eq_Some_iff comp_def)
  qed
  then show "fold cache_set (map (toDTO d) us) newCache k = client_view d m k"
    unfolding fold_cache_set [OF dist] by (simp add: newCache_def split: option.split)
qed

lemma loadCache_in_step:
  assumes doc: "documented d is_email is_uuid" and "pg_good e" and ok: "table_ok t"
  shows "loadCache (service_rpc d pg_service e) \<lparr>cl_cache = Some newCache, cl_fullyLoaded = False\<rparr> (t, log)
    = ((t, log), \<lparr>cl_cache = Some (client_view d (pg_users t)), cl_fullyLoaded = True\<rparr>)"
proof -
  have "good_call d is_email is_uuid e t ListAllOp" using assms by (simp add: good_call_def)
  from pg_rpc_serves [OF this, of log]
  obtain a t' j where rpc: "service_rpc d pg_service e SubjectListAllUsers (JObj []) (t, log)
      = ((t', log @ op_event d ListAllOp a), Inr (Some j))"
    and j: "op_reply d ListAllOp a = Reply j"
    and s: "serve (hd_uuid_parse d) (pg_fresh e t) (pg_users t) ListAllOp a (pg_users t')"
    by auto
  have w: "(t', log @ op_event d ListAllOp a) = (t, log)"
    using service_rpc_reads [of SubjectListAllUsers d e "JObj []" t log] rpc
    by (simp add: subject_defs)
  obtain us where "a = UsersAnswer us" and full: "full_listing (pg_users t) None us"
    using s by (auto elim: serve_ListAllE)
  moreover have "fold cache_set (map (toDTO d) us) newCache = client_view d (pg_users t)"
    using doc ok full by (intro fold_cache_set_listing)
      (auto simp: documented_def dest: pg.inv_ids)
  ultimately show ?thesis
    using rpc j w by (simp add: loadCache_def request_def rpc_simps wire_simps)
qed

subsection \<open>No panics over the handlers\<close>

lemma user_exchange_head:
  assumes "user_exchange f es"
  shows "\<exists>r rest. es = Reply (enc_user_response r) # rest \<and> r \<noteq> no_user_response"
proof -
  have "\<exists>r rest. es = Reply (enc_user_response r) # rest \<and> r \<noteq> no_user_response"
    if "es = Reply (enc_user_response r) # rest" and "r \<noteq> no_user_response" for r rest
    using that by blast
  then show ?thesis
    using assms by (auto simp: user_exchange_def user_error_def user_reply_def)
qed

lemma rpc_user_of:
  assumes s: "s \<in> {SubjectCreateUser, SubjectUpdateUser, SubjectGetUserByID, SubjectGetUserByEmail}"
  shows "user_of (snd (request (service_rpc d svc c) s p dec_user_response no_user_response w))
    \<noteq> Panic m"
proof -
  obtain db' es where del: "deliver handler_entries d svc c s (Some p) (fst w) = (db', es)"
    by fastforce
  have "exchange s es" using deliver_exchange [of s d svc c "Some p" "fst w"] del by simp
  then have "\<exists>f. user_exchange f es" using s by (elim insertE emptyE) (auto simp: rpc_simps)
  then obtain r rest where es: "es = Reply (enc_user_response r) # rest" and r: "r \<noteq> no_user_response"
    using user_exchange_head by blast
  have "request (service_rpc d svc c) s p dec_user_response no_user_response w
      = ((db', snd w @ published rest), Inr r)"
    using del unfolding es by (simp add: request_def service_rpc_def wire_simps)
  then show ?thesis using r user_of_panics_iff [of "Inr r"] by auto
qed

subsection \<open>Concrete dependencies\<close>

text \<open>
  A uuid package and a validator that meet their documentation, for concrete inputs: the id
  \<open>n\<close> is printed as \<open>n\<close> letters, one of these strings passes as a uuid, and an e-mail
  address has an at sign.
\<close>

definition plain_email :: "string \<Rightarrow> bool" where
  "plain_email s \<longleftrightarrow> CHR ''@'' \<in> set s"

definition plain_uuid :: "string \<Rightarrow> bool" where
  "plain_uuid s \<longleftrightarrow> s = ''x''"

definition plain_deps :: handler_deps where
  "plain_deps =
     \<lparr>hd_validate = plain_validator plain_email plain_uuid,
      hd_uuid_parse = (\<lambda>s. Some (of_nat (length s))),
      hd_uuid_string = (\<lambda>i. replicate (unat i) (CHR ''x''))\<rparr>"

lemma plain_deps_documented [simp]: "documented plain_deps plain_email plain_uuid"
  by (simp add: documented_def plain_deps_def plain_validator_documented uuid_documented_def
      plain_uuid_def)

definition ada_request :: create_request where
  "ada_request = \<lparr>cr_FirstName = ''Ada'', cr_LastName = ''Lovelace'', cr_Email = ''ada@example.org'',
     cr_Phone = None, cr_Age = Some 36, cr_Status = ''''\<rparr>"

definition ada_update :: "string \<Rightarrow> update_request" where
  "ada_update first = \<lparr>ur_UserID = ''x'', ur_FirstName = first, ur_LastName = ''King'',
     ur_Email = ''ada@example.org'', ur_Phone = None, ur_Age = None, ur_Status = ''ACTIVE''\<rparr>"

lemma plain_accepted [simp]:
  "accepted plain_deps (CreateOp ada_request)"
  "accepted plain_deps (UpdateOp (ada_update ''Ada''))"
  "accepted plain_deps (UpdateOp (ada_update [CHR 0x00]))"
  "accepted plain_deps (DeleteOp ''x'')"
  "accepted plain_deps (GetOp ''x'')"
  by code_simp+

lemma plain_texts [simp]:
  "op_texts (plain_env i) (CreateOp ada_request)"
  "op_texts (plain_env i) (UpdateOp (ada_update ''Ada''))"
  "\<not> op_texts (plain_env i) (UpdateOp (ada_update [CHR 0x00]))"
  by (simp_all add: texts_ok_def created_user_def update_user_def new_user_def ada_request_def
      ada_update_def status_defs)

lemma ada_row_id: "du_UserID ada_row = 1"
  by (simp add: ada_row_def)

lemma view_ada:
  "client_view plain_deps (pg_users [ada_row]) = [''x'' \<mapsto> toDTO plain_deps (toDomainUser ada_row)]"
proof -
  have "uuid_documented plain_deps plain_uuid"
    using plain_deps_documented by (simp add: documented_def)
  from client_view_upd [OF this, of "toDomainUser ada_row" 1 Map.empty] show ?thesis
    by (simp add: pg_users_ada cache_simps cache_set_def newCache_def toDTO_def [of plain_deps]
        ada_row_id) (simp add: plain_deps_def)
qed

end
