(* ===== verification/Gateway_System.thy ===== *)
theory Gateway_System
  imports Http_Handler Ws_Actions User_System
begin

text \<open>
  The gateway over the user service: the HTTP and WebSocket handlers call the application,
  which is the adapter around the RPC client with its cache, over the NATS handlers of
  \<open>Nats_Handler\<close>. First the facts about the gateway's own code, then those that need the
  whole chain.
\<close>

subsection \<open>Numbers in queries\<close>

lemma digits_value_snoc: "digits_value (ds @ [ch]) = digits_value ds * 10 + (int (of_char ch) - 48)"
  by (simp add: digits_value_def)

lemma of_char_digit: "n < 10 \<Longrightarrow> (of_char (digit n) :: nat) = n + 48"
  by (simp add: digit_def)

lemma is_digit_digit: "n < 10 \<Longrightarrow> is_digit (digit n)"
  by (simp add: is_digit_def digit_def)

lemma digits_value_dec_digits: "digits_value (dec_digits n) = int n"
proof (induction n rule: dec_digits.induct)
  case (1 n)
  show ?case
  proof (cases "n < 10")
    case True
    then show ?thesis
      by (subst dec_digits.simps) (simp add: digits_value_def of_char_digit)
  next
    case False
    have "int (n div 10) * 10 + int (n mod 10) = int n" by presburger
    with False 1 show ?thesis
      by (subst dec_digits.simps) (simp add: digits_value_snoc of_char_digit)
  qed
qed

lemma dec_digits_are_digits: "list_all is_digit (dec_digits n)"
proof (induction n rule: dec_digits.induct)
  case (1 n)
  then show ?case
    by (subst dec_digits.simps) (simp add: is_digit_digit)
qed

lemma dec_digits_Cons: "\<exists>ch cs. dec_digits n = ch # cs \<and> is_digit ch"
proof -
  have "dec_digits n \<noteq> []" by (subst dec_digits.simps) simp
  then show ?thesis using dec_digits_are_digits [of n] by (cases "dec_digits n") auto
qed

lemma pad_int_0: "pad_int 0 i = (if i < 0 then CHR ''-'' # dec_digits (nat (- i)) else dec_digits (nat i))"
  by (simp add: pad_int_def pad_digits_def Let_def)

lemma ParseInt_pad_int: "fits_signed n i \<Longrightarrow> ParseInt n (pad_int 0 i) = Some i"
proof (cases "i < 0")
  case True
  moreover assume "fits_signed n i"
  moreover have "dec_digits (nat (- i)) \<noteq> []" using dec_digits_Cons [of "nat (- i)"] by auto
  ultimately show ?thesis
    by (simp add: pad_int_0 ParseInt_def digits_value_dec_digits dec_digits_are_digits)
next
  case False
  assume fits: "fits_signed n i"
  obtain ch cs where ds: "dec_digits (nat i) = ch # cs" and "is_digit ch"
    using dec_digits_Cons by blast
  then have "ch \<noteq> CHR ''+''" "ch \<noteq> CHR ''-''" by (auto simp: is_digit_def)
  moreover have "list_all is_digit (ch # cs)" using dec_digits_are_digits [of "nat i"] ds by simp
  moreover have "digits_value (ch # cs) = i"
    using digits_value_dec_digits [of "nat i"] ds False by simp
  ultimately show ?thesis
    using False fits by (simp add: pad_int_0 ParseInt_def ds)
qed

subsection \<open>Panics\<close>

definition gateway_env ::
  "handler_deps \<Rightarrow> ('c, 'db) user_service \<Rightarrow> ('c \<Rightarrow> string list)
     \<Rightarrow> ('c, 'db \<times> (string \<times> json) list) client_env" where
  "gateway_env d svc it = \<lparr>ce_rpc = service_rpc d svc, ce_iteration = it\<rparr>"

definition gateway_app ::
  "handler_deps \<Rightarrow> ('c, 'db) user_service \<Rightarrow> ('c \<Rightarrow> string list)
     \<Rightarrow> ('c, ('db \<times> (string \<times> json) list) client_state) user_port" where
  "gateway_app d svc it = NewApp (NewUserClientAdapter (gateway_env d svc it))"

lemma gateway_app_simps [rpc_simps]:
  "up_CreateUser (gateway_app d svc it) = adapter_CreateUser (gateway_env d svc it)"
  "up_GetUserByID (gateway_app d svc it) = adapter_GetUserByID (gateway_env d svc it)"
  "up_GetUserByEmail (gateway_app d svc it) = adapter_GetUserByEmail (gateway_env d svc it)"
  "up_ListUsers (gateway_app d svc it) = adapter_ListUsers (gateway_env d svc it)"
  "up_UpdateUser (gateway_app d svc it) = adapter_UpdateUser (gateway_env d svc it)"
  "up_DeleteUser (gateway_app d svc it) = adapter_DeleteUser (gateway_env d svc it)"
  "ce_rpc (gateway_env d svc it) = service_rpc d svc"
  "ce_iteration (gateway_env d svc it) = it"
  by (simp_all add: gateway_app_def rpc_simps gateway_env_def)

lemma adapter_no_panic:
  "snd (adapter_CreateUser (gateway_env d svc it) c q s) \<noteq> Panic m"
  "snd (adapter_UpdateUser (gateway_env d svc it) c i u s) \<noteq> Panic m"
  "snd (adapter_GetUserByID (gateway_env d svc it) c i s) \<noteq> Panic m"
  "snd (adapter_GetUserByEmail (gateway_env d svc it) c em s) \<noteq> Panic m"
  "snd (adapter_DeleteUser (gateway_env d svc it) c i s) \<noteq> Panic m"
  using rpc_user_of [of SubjectCreateUser d svc c "enc_create_request (adapter_create_request q)" "snd s" m]
    rpc_user_of [of SubjectUpdateUser d svc c "enc_update_request (adapter_update_request i u)" "snd s" m]
    rpc_user_of [of SubjectGetUserByID d svc c "enc_id_request \<lparr>ir_UserID = i\<rparr>" "snd s" m]
    rpc_user_of [of SubjectGetUserByEmail d svc c "enc_email_request \<lparr>er_Email = em\<rparr>" "snd s" m]
  by (auto simp: rpc_simps adapter_CreateUser_def adapter_UpdateUser_def adapter_GetUserByID_def
      adapter_GetUserByEmail_def adapter_DeleteUser_def client_CreateUser_def client_UpdateUser_def
      client_GetUserByID_def client_GetUserByEmail_def client_DeleteUser_def
      split: prod.split option.split sum.split)

lemma client_ListUsers_no_panic:
  assumes "0 < sint (lr_Limit q)" and "0 \<le> sint (lr_Offset q)"
  shows "snd (client_ListUsers rpc it q cl w) \<noteq> Panic m"
proof -
  have "lr_Limit q \<noteq> 0" using assms(1) by auto
  then show ?thesis
    using cache_list_page [OF assms(2,1)]
    by (auto simp: client_ListUsers_def split: option.split prod.split sum.split)
qed

lemma adapter_ListUsers_no_panic:
  assumes "0 < sint (gl_Limit q)" and "0 \<le> sint (gl_Offset q)"
  shows "snd (adapter_ListUsers ce c q s) \<noteq> Panic m"
  using client_ListUsers_no_panic [of "adapter_list_request q" "ce_rpc ce c" "ce_iteration ce c"
      "fst s" "snd s" m] assms
  by (auto simp: adapter_ListUsers_def adapter_list_request_def split: prod.split)

interpretation gateway: quiet_port "gateway_app d svc it" for d svc it
  by unfold_locales (simp_all add: rpc_simps adapter_no_panic adapter_ListUsers_no_panic)

end
