(* ===== verification/Gateway_Requests.thy ===== *)
theory Gateway_Requests
  imports Gateway_System
begin

text \<open>
  HTTP requests as operations of the service (\<open>Service_Spec\<close>): what a request asks for, which
  requests the gateway passes on, and what the client of the gateway is told of the answer.
\<close>

subsection \<open>What a request asks for\<close>

text \<open>A number in a query: absent, the default; otherwise a 32 bit number from \<open>lo\<close> up.\<close>

definition query_number :: "int \<Rightarrow> go_int32 \<Rightarrow> string \<Rightarrow> go_int32 option" where
  "query_number lo dflt s =
     (if s = [] then Some dflt
      else case ParseInt 32 s of
        None \<Rightarrow> None
      | Some v \<Rightarrow> if v < lo then None else Some (word_of_int v))"

definition list_query :: "http_request \<Rightarrow> g_list_request option" where
  "list_query r =
     (case (query_number 1 defaultLimit (hr_query r ''limit''), query_number 0 0 (hr_query r ''offset'')) of
        (Some l, Some off) \<Rightarrow>
          Some \<lparr>gl_Status = (if hr_query r ''status'' \<noteq> [] then Some (hr_query r ''status'') else None),
                gl_Limit = l, gl_Offset = off\<rparr>
      | _ \<Rightarrow> None)"

text \<open>The operation a route asks for, \<open>None\<close> when the body or the query does not decode.\<close>

definition http_operation :: "string \<times> string \<Rightarrow> http_request \<Rightarrow> operation option" where
  "http_operation k r =
     (if k = (''POST'', PathUsers)
      then map_option (CreateOp \<circ> adapter_create_request)
             (unmarshal dec_g_create zero_g_create (hr_body r))
      else if k = (''GET'', PathUsers) then map_option (ListOp \<circ> adapter_list_request) (list_query r)
      else if k = (''GET'', PathUserByEmail) then Some (EmailOp (hr_param r ''email''))
      else if k = (''GET'', PathUserByID) then Some (GetOp (hr_param r ''id''))
      else if k = (''PUT'', PathUserByID)
      then map_option (UpdateOp \<circ> adapter_update_request (hr_param r ''id''))
             (unmarshal dec_g_update zero_g_update (hr_body r))
      else if k = (''DELETE'', PathUserByID) then Some (DeleteOp (hr_param r ''id''))
      else None)"

lemma http_operation_eqs:
  "http_operation (''POST'', PathUsers) r =
     map_option (CreateOp \<circ> adapter_create_request) (unmarshal dec_g_create zero_g_create (hr_body r))"
  "http_operation (''GET'', PathUsers) r = map_option (ListOp \<circ> adapter_list_request) (list_query r)"
  "http_operation (''GET'', PathUserByEmail) r = Some (EmailOp (hr_param r ''email''))"
  "http_operation (''GET'', PathUserByID) r = Some (GetOp (hr_param r ''id''))"
  "http_operation (''PUT'', PathUserByID) r =
     map_option (UpdateOp \<circ> adapter_update_request (hr_param r ''id''))
       (unmarshal dec_g_update zero_g_update (hr_body r))"
  "http_operation (''DELETE'', PathUserByID) r = Some (DeleteOp (hr_param r ''id''))"
  by (simp_all add: http_operation_def path_defs)

lemma parseListRequest_eq:
  "parseListRequest h r =
     (case query_number 1 defaultLimit (hr_query r ''limit'') of
        None \<Rightarrow> Inl (bad_request ''limit must be a positive integer'')
      | Some l \<Rightarrow>
          (case query_number 0 0 (hr_query r ''offset'') of
             None \<Rightarrow> Inl (bad_request ''offset must be a non-negative integer'')
           | Some off \<Rightarrow>
               (let req = the (list_query r) in
                case hh_validate h (g_list_vfields req) of
                  Some msg \<Rightarrow> Inl (validation_failed msg)
                | None \<Rightarrow> Inr req)))"
  by (auto simp: parseListRequest_def query_number_def list_query_def Let_def split: option.split)

lemma list_query_None:
  "list_query r = None \<longleftrightarrow> query_number 1 defaultLimit (hr_query r ''limit'') = None
     \<or> query_number 0 0 (hr_query r ''offset'') = None"
  by (auto simp: list_query_def split: option.split)

subsection \<open>The same checks on both sides\<close>

lemma validators_agree:
  assumes "validator_documented v is_email is_uuid" and "validator_documented v' is_email is_uuid"
    and "map (\<lambda>f. (vf_Tags f, vf_Value f)) fs = map (\<lambda>f. (vf_Tags f, vf_Value f)) gs"
  shows "v fs = None \<longleftrightarrow> v' gs = None"
proof -
  have ok: "(\<forall>f\<in>set fs. field_ok is_email is_uuid f) \<longleftrightarrow>
      (\<forall>p\<in>set (map (\<lambda>f. (vf_Tags f, vf_Value f)) fs).
        OmitEmpty \<in> set (fst p) \<and> is_zero (snd p) \<or> (\<forall>t\<in>set (fst p). tag_ok is_email is_uuid t (snd p)))"
    for fs by (simp add: field_ok_def)
  show ?thesis
    using assms(1,2) ok [of fs] ok [of gs] unfolding assms(3) validator_documented_def by blast
qed

lemma validator_Cons:
  assumes "validator_documented v is_email is_uuid"
  shows "v (f # fs) = None \<longleftrightarrow> v [f] = None \<and> v fs = None"
  using assms by (simp add: validator_documented_def)

lemma http_accepts:
  assumes h: "validator_documented (hh_validate h) is_email is_uuid"
    and d: "documented d is_email is_uuid"
  shows "accepted d (CreateOp (adapter_create_request req)) \<longleftrightarrow>
      hh_validate h (g_create_vfields req) = None"
    and "accepted d (ListOp (adapter_list_request l)) \<longleftrightarrow> hh_validate h (g_list_vfields l) = None"
    and "accepted d (EmailOp em) \<longleftrightarrow> hh_validate h (var_email em) = None"
    and "accepted d (GetOp i) \<longleftrightarrow> hh_validate h (var_uuid i) = None"
    and "accepted d (DeleteOp i) \<longleftrightarrow> hh_validate h (var_uuid i) = None"
    and "accepted d (UpdateOp (adapter_update_request i u)) \<longleftrightarrow>
      hh_validate h (var_uuid i) = None \<and> hh_validate h (g_update_vfields u) = None"
proof -
  have v: "validator_documented (hd_validate d) is_email is_uuid"
    using d by (simp add: documented_def)
  note agree = validators_agree [OF v h]
  have uuid: "hd_uuid_parse d i \<noteq> None" if "hh_validate h (var_uuid i) = None"
    using that h d
    by (auto simp: documented_def uuid_documented_def validator_documented_def var_uuid_def
        field_ok_simps)
  have id: "hd_validate d (id_fields \<lparr>ir_UserID = i\<rparr>) = None \<longleftrightarrow> hh_validate h (var_uuid i) = None"
    by (rule agree) (simp add: id_fields_def var_uuid_def)
  show "accepted d (CreateOp (adapter_create_request req)) \<longleftrightarrow>
      hh_validate h (g_create_vfields req) = None"
    using agree [of "g_create_vfields req" "g_create_vfields req"] by (simp add: rpc_simps)
  show "accepted d (ListOp (adapter_list_request l)) \<longleftrightarrow> hh_validate h (g_list_vfields l) = None"
    using agree [of "g_list_vfields l" "g_list_vfields l"] by (simp add: rpc_simps)
  show "accepted d (EmailOp em) \<longleftrightarrow> hh_validate h (var_email em) = None"
    using agree [of "email_fields \<lparr>er_Email = em\<rparr>" "var_email em"]
    by (simp add: email_fields_def var_email_def)
  show "accepted d (GetOp i) \<longleftrightarrow> hh_validate h (var_uuid i) = None"
    using id uuid by auto
  show "accepted d (DeleteOp i) \<longleftrightarrow> hh_validate h (var_uuid i) = None"
    using id uuid by auto
  let ?f = "\<lparr>vf_Name = ''UserID'', vf_Tags = [Required, Uuid], vf_Value = VStr i\<rparr>"
  have "hd_validate d [?f] = None \<longleftrightarrow> hh_validate h (var_uuid i) = None"
    by (rule agree) (simp add: var_uuid_def)
  moreover have "hd_validate d (g_update_vfields u) = None \<longleftrightarrow> hh_validate h (g_update_vfields u) = None"
    by (rule agree) simp
  moreover have "accepted d (UpdateOp (adapter_update_request i u)) \<longleftrightarrow>
      hd_validate d (?f # g_update_vfields u) = None \<and> hd_uuid_parse d i \<noteq> None"
    by (simp only: accepted.simps g_vfields_adapter) (simp add: adapter_update_request_def)
  ultimately show "accepted d (UpdateOp (adapter_update_request i u)) \<longleftrightarrow>
      hh_validate h (var_uuid i) = None \<and> hh_validate h (g_update_vfields u) = None"
    using uuid by (simp only: validator_Cons [OF v, of ?f "g_update_vfields u"]) blast
qed

lemma http_refused:
  assumes h: "validator_documented (hh_validate h) is_email is_uuid"
    and d: "documented d is_email is_uuid"
    and act: "(k, act) \<in> set RegisterRoutes" "k \<noteq> (''GET'', PathHealth)"
    and no: "case http_operation k r of None \<Rightarrow> True | Some oper \<Rightarrow> \<not> accepted d oper"
  shows "\<exists>body. act h c r s = (s, Return (writeJSON StatusBadRequest body))"
  using act no
  by (auto simp: RegisterRoutes_def http_operation_eqs http_accepts [OF h d] list_query_None
      http_handleCreate_def http_handleList_def http_handleGetByEmail_def http_handleGetByID_def
      http_handleUpdate_def http_handleDelete_def Let_def bad_request_def validation_failed_def
      invalid_uuid_def parseListRequest_eq simp del: accepted.simps split: option.splits)

subsection \<open>Answers\<close>

text \<open>The response to an answer of the service, given the status of a success.\<close>

fun http_answer :: "handler_deps \<Rightarrow> nat \<Rightarrow> answer \<Rightarrow> http_response \<Rightarrow> bool" where
  "http_answer d ok (UserAnswer u) r = (r = writeJSON ok (enc_dto (toDTO d u)))"
| "http_answer d ok Done r = (r = \<lparr>rs_status = ok, rs_content_type = None, rs_body = None\<rparr>)"
| "http_answer d ok (Failed ErrUserNotFound) r =
     (r = writeJSON StatusNotFound (http_errorResponse ''NOT_FOUND'' ''not found: user not found''))"
| "http_answer d ok (Failed ErrEmailAlreadyExists) r =
     (r = writeJSON StatusConflict
        (http_errorResponse ''ALREADY_EXISTS'' ''already exists: email already exists''))"
| "http_answer d ok _ r = False"

definition success_status :: "string \<times> string \<Rightarrow> nat" where
  "success_status k =
     (if fst k = ''POST'' then StatusCreated
      else if fst k = ''DELETE'' then StatusNoContent else StatusOK)"

lemma failed_answer:
  assumes "err = ErrUserNotFound \<or> err = ErrEmailAlreadyExists"
  shows "\<exists>resp. respond f (s, Return (Inl (mapRPCError (mapDomainErr err)))) = (s, Return resp)
    \<and> http_answer d ok (Failed err) resp"
  using assms by (auto simp: respond_def mapDomainErr_def rpcErr_def mapRPCError_def code_defs)

definition expected_failure :: "answer \<Rightarrow> bool" where
  "expected_failure a \<longleftrightarrow> (\<forall>err. a = Failed err \<longrightarrow> err = ErrUserNotFound \<or> err = ErrEmailAlreadyExists)"

lemma told_user_answer:
  assumes "told_user d a r" and "expected_failure a"
  shows "\<exists>resp. respond (\<lambda>u. writeJSON ok (enc_g_user u)) (s, map_result toUserResponse (Return r))
      = (s, Return resp) \<and> http_answer d ok a resp"
proof (cases a)
  case (UserAnswer u)
  then show ?thesis using assms(1) by (simp add: respond_def wire_simps)
next
  case (Failed err)
  then show ?thesis
    using assms failed_answer [of err "\<lambda>u. writeJSON ok (enc_g_user u)" s d ok]
    by (simp add: expected_failure_def)
qed (use assms(1) in simp_all)

lemma told_done_answer:
  assumes "told_done d a r" and "expected_failure a"
  shows "\<exists>resp. respond (\<lambda>_. \<lparr>rs_status = ok, rs_content_type = None, rs_body = None\<rparr>) (s, Return r)
      = (s, Return resp) \<and> http_answer d ok a resp"
proof (cases a)
  case Done
  then show ?thesis using assms(1) by (simp add: respond_def)
next
  case (Failed err)
  then have r: "r = Inl (mapRPCError (mapDomainErr err))" using assms(1) by simp
  show ?thesis
    unfolding r Failed by (rule failed_answer) (use assms(2) Failed in \<open>simp add: expected_failure_def\<close>)
qed (use assms(1) in simp_all)

lemma serve_expected:
  "serve parse fr m (CreateOp q) a m' \<Longrightarrow> expected_failure a"
  "serve parse fr m (UpdateOp u) a m' \<Longrightarrow> expected_failure a"
  "serve parse fr m (DeleteOp i) a m' \<Longrightarrow> expected_failure a"
  "serve parse fr m (GetOp i) a m' \<Longrightarrow> expected_failure a"
  by (auto simp: expected_failure_def elim: serve_CreateE serve_UpdateE serve_DeleteE serve_GetE)

subsection \<open>Requests served\<close>

text \<open>
  A gateway over the service on PostgreSQL: its application is the one \<open>main\<close> builds, and its
  validator meets the documentation.
\<close>

definition http_over :: "(pg_env, (table \<times> (string \<times> json) list) client_state) http_handler
    \<Rightarrow> handler_deps \<Rightarrow> (pg_env \<Rightarrow> string list) \<Rightarrow> (string \<Rightarrow> bool) \<Rightarrow> (string \<Rightarrow> bool) \<Rightarrow> bool" where
  "http_over h d it is_email is_uuid \<longleftrightarrow>
     hh_service h = gateway_app d pg_service it
     \<and> validator_documented (hh_validate h) is_email is_uuid"

lemma http_create_serves:
  assumes h: "http_over h d it is_email is_uuid"
    and oper: "http_operation (''POST'', PathUsers) r = Some oper"
    and good: "good_call d is_email is_uuid e t oper"
  shows "\<exists>a t' resp. http_handleCreate h e r (cl, (t, log))
        = ((cl, (t', log @ op_event d oper a)), Return resp)
      \<and> serve (hd_uuid_parse d) (pg_fresh e t) (pg_users t) oper a (pg_users t')
      \<and> http_answer d StatusCreated a resp"
proof -
  obtain req where req: "unmarshal dec_g_create zero_g_create (hr_body r) = Some req"
    "oper = CreateOp (adapter_create_request req)"
    using oper by (auto simp: http_operation_eqs)
  have valid: "hh_validate h (g_create_vfields req) = None"
    using h good req(2) http_accepts(1) [of h is_email is_uuid d req]
    by (simp add: http_over_def good_call_def del: accepted.simps)
  obtain a t' r' where c: "client_CreateUser (service_rpc d pg_service e)
        (adapter_create_request req) (t, log) = ((t', log @ op_event d oper a), Return r')"
    and s: "serve (hd_uuid_parse d) (pg_fresh e t) (pg_users t) oper a (pg_users t')"
    and told: "told_user d a r'"
    using client_Create_serves [OF good [unfolded req(2)], of log] unfolding req(2) by blast
  have "expected_failure a" using s req(2) serve_expected(1) by blast
  from told_user_answer [OF told this, of StatusCreated "(cl, (t', log @ op_event d oper a))"]
  show ?thesis
    using req(1) valid c s h
    by (auto simp: http_handleCreate_def http_over_def rpc_simps adapter_CreateUser_def)
qed

lemma http_update_serves:
  assumes h: "http_over h d it is_email is_uuid"
    and oper: "http_operation (''PUT'', PathUserByID) r = Some oper"
    and good: "good_call d is_email is_uuid e t oper"
  shows "\<exists>a t' resp. http_handleUpdate h e r (cl, (t, log))
        = ((cl, (t', log @ op_event d oper a)), Return resp)
      \<and> serve (hd_uuid_parse d) (pg_fresh e t) (pg_users t) oper a (pg_users t')
      \<and> http_answer d StatusOK a resp"
proof -
  let ?i = "hr_param r ''id''"
  obtain req where req: "unmarshal dec_g_update zero_g_update (hr_body r) = Some req"
    "oper = UpdateOp (adapter_update_request ?i req)"
    using oper by (auto simp: http_operation_eqs)
  have valid: "hh_validate h (var_uuid ?i) = None" "hh_validate h (g_update_vfields req) = None"
    using h good req(2) http_accepts(6) [of h is_email is_uuid d ?i req]
    by (simp_all add: http_over_def good_call_def del: accepted.simps)
  obtain a t' r' where c: "client_UpdateUser (service_rpc d pg_service e)
        (adapter_update_request ?i req) (t, log) = ((t', log @ op_event d oper a), Return r')"
    and s: "serve (hd_uuid_parse d) (pg_fresh e t) (pg_users t) oper a (pg_users t')"
    and told: "told_user d a r'"
    using client_Update_serves [OF good [unfolded req(2)], of log] unfolding req(2) by blast
  have "expected_failure a" using s req(2) serve_expected(2) by blast
  from told_user_answer [OF told this, of StatusOK "(cl, (t', log @ op_event d oper a))"]
  show ?thesis
    using req(1) valid c s h
    by (auto simp: http_handleUpdate_def http_over_def rpc_simps adapter_UpdateUser_def)
qed

lemma http_delete_serves:
  assumes h: "http_over h d it is_email is_uuid"
    and oper: "http_operation (''DELETE'', PathUserByID) r = Some oper"
    and good: "good_call d is_email is_uuid e t oper"
  shows "\<exists>a t' resp. http_handleDelete h e r (cl, (t, log))
        = ((cl, (t', log @ op_event d oper a)), Return resp)
      \<and> serve (hd_uuid_parse d) (pg_fresh e t) (pg_users t) oper a (pg_users t')
      \<and> http_answer d StatusNoContent a resp"
proof -
  let ?i = "hr_param r ''id''"
  have req: "oper = DeleteOp ?i" using oper by (auto simp: http_operation_eqs)
  have valid: "hh_validate h (var_uuid ?i) = None"
    using h good req http_accepts(5) [of h is_email is_uuid d ?i]
    by (simp add: http_over_def good_call_def del: accepted.simps)
  obtain a t' r' where c: "client_DeleteUser (service_rpc d pg_service e) ?i (t, log)
      = ((t', log @ op_event d oper a), Return r')"
    and s: "serve (hd_uuid_parse d) (pg_fresh e t) (pg_users t) oper a (pg_users t')"
    and told: "told_done d a r'"
    using client_Delete_serves [OF good [unfolded req], of log] unfolding req by blast
  have "expected_failure a" using s req serve_expected(3) by blast
  from told_done_answer [OF told this, of StatusNoContent "(cl, (t', log @ op_event d oper a))"]
  show ?thesis
    using valid c s h
    by (auto simp: http_handleDelete_def http_over_def rpc_simps adapter_DeleteUser_def)
qed

lemma http_get_serves:
  assumes h: "http_over h d it is_email is_uuid"
    and good: "good_call d is_email is_uuid e t (GetOp (hr_param r ''id''))"
    and cl: "cl_cache cl = Some (client_view d (pg_users t))"
  shows "\<exists>a resp. http_handleGetByID h e r (cl, (t, log)) = ((cl, (t, log)), Return resp)
      \<and> serve (hd_uuid_parse d) (pg_fresh e t) (pg_users t) (GetOp (hr_param r ''id'')) a (pg_users t)
      \<and> http_answer d StatusOK a resp"
proof -
  let ?i = "hr_param r ''id''"
  have valid: "hh_validate h (var_uuid ?i) = None"
    using h good http_accepts(4) [of h is_email is_uuid d ?i]
    by (simp add: http_over_def good_call_def del: accepted.simps)
  obtain a r' where c: "client_GetUserByID (service_rpc d pg_service e) ?i cl (t, log)
      = ((t, log), cl, Return r')"
    and s: "serve (hd_uuid_parse d) (pg_fresh e t) (pg_users t) (GetOp ?i) a (pg_users t)"
    and told: "told_user d a r'"
    using client_Get_in_step [OF good cl] by blast
  have "expected_failure a" using s serve_expected(4) by blast
  from told_user_answer [OF told this, of StatusOK "(cl, (t, log))"]
  show ?thesis
    using valid c s h
    by (auto simp: http_handleGetByID_def http_over_def rpc_simps adapter_GetUserByID_def)
qed

lemma http_mutation_serves:
  assumes h: "http_over h d it is_email is_uuid"
    and act: "(k, act) \<in> set RegisterRoutes" "fst k \<noteq> ''GET''"
    and oper: "http_operation k r = Some oper" and good: "good_call d is_email is_uuid e t oper"
  shows "\<exists>a t' resp. act h e r (cl, (t, log)) = ((cl, (t', log @ op_event d oper a)), Return resp)
      \<and> serve (hd_uuid_parse d) (pg_fresh e t) (pg_users t) oper a (pg_users t')
      \<and> http_answer d (success_status k) a resp"
proof -
  consider "k = (''POST'', PathUsers)" "act = http_handleCreate"
    | "k = (''PUT'', PathUserByID)" "act = http_handleUpdate"
    | "k = (''DELETE'', PathUserByID)" "act = http_handleDelete"
    using act by (auto simp: RegisterRoutes_def)
  then show ?thesis
  proof cases
    case 1
    then show ?thesis
      using http_create_serves [OF h _ good, of r cl log] oper by (simp add: success_status_def)
  next
    case 2
    then show ?thesis
      using http_update_serves [OF h _ good, of r cl log] oper by (simp add: success_status_def)
  next
    case 3
    then show ?thesis
      using http_delete_serves [OF h _ good, of r cl log] oper by (simp add: success_status_def)
  qed
qed

text \<open>The world after a mutation is the one its request to the service has left.\<close>

lemma client_worlds:
  "fst (client_CreateUser rpc q w) = fst (rpc SubjectCreateUser (enc_create_request q) w)"
  "fst (client_UpdateUser rpc u w) = fst (rpc SubjectUpdateUser (enc_update_request u) w)"
  "fst (client_DeleteUser rpc i w) = fst (rpc SubjectDeleteUser (enc_id_request \<lparr>ir_UserID = i\<rparr>) w)"
  by (simp_all add: client_CreateUser_def client_UpdateUser_def client_DeleteUser_def
      request_def split: prod.split sum.split option.split)

lemma service_rpc_ok: "table_ok t \<Longrightarrow> table_ok (fst (fst (service_rpc d pg_service e s j (t, log))))"
  using users.deliver_inv [of t d e s "Some j"]
  by (auto simp: service_rpc_def split: prod.split)

lemma fst_respond [simp]: "fst (respond f r) = fst r"
  by (simp add: respond_def split: prod.split outcome.split sum.split)

lemma http_mutation_ok:
  assumes h: "hh_service h = gateway_app d pg_service it"
    and act: "(k, act) \<in> set RegisterRoutes" "fst k \<noteq> ''GET''" and ok: "table_ok t"
  shows "table_ok (fst (snd (fst (act h e r (cl, (t, log))))))"
  using act ok
  by (auto simp: RegisterRoutes_def http_handleCreate_def http_handleUpdate_def
      http_handleDelete_def Let_def h rpc_simps adapter_CreateUser_def adapter_UpdateUser_def
      adapter_DeleteUser_def case_prod_beta client_worlds service_rpc_ok split: option.split)

subsection \<open>Numbers\<close>

text \<open>The query a list request is printed as.\<close>

definition list_query_of :: "g_list_request \<Rightarrow> string \<Rightarrow> string" where
  "list_query_of q name =
     (if name = ''status'' then (case gl_Status q of None \<Rightarrow> '''' | Some st \<Rightarrow> st)
      else if name = ''limit'' then pad_int 0 (sint (gl_Limit q))
      else if name = ''offset'' then pad_int 0 (sint (gl_Offset q))
      else '''')"

lemma pad_int_not_Nil: "pad_int 0 i \<noteq> []"
  using dec_digits_Cons [of "nat i"] by (auto simp: pad_int_0)

lemma query_number_print:
  assumes "lo \<le> sint w"
  shows "query_number lo dflt (pad_int 0 (sint w)) = Some w"
proof -
  have "ParseInt 32 (pad_int 0 (sint w)) = Some (sint w)"
    using sint_range_size [of w] by (intro ParseInt_pad_int) (simp add: fits_signed_def word_size)
  with assms show ?thesis by (simp add: query_number_def pad_int_not_Nil)
qed

lemma list_query_print:
  assumes "hr_query r = list_query_of q" and "gl_Status q \<noteq> Some ''''"
    and "1 \<le> sint (gl_Limit q)" and "0 \<le> sint (gl_Offset q)"
  shows "list_query r = Some q"
  using assms by (cases q) (auto simp: list_query_def list_query_of_def query_number_print
      split: option.splits)

lemma parseListRequest_print:
  assumes "validator_documented (hh_validate h) is_email is_uuid"
    and "hr_query r = list_query_of q" and "pred_option (\<lambda>st. st \<in> set statuses) (gl_Status q)"
    and "1 \<le> sint (gl_Limit q)" and "sint (gl_Limit q) \<le> 1000" and "0 \<le> sint (gl_Offset q)"
  shows "parseListRequest h r = Inr q"
proof -
  have "gl_Status q \<noteq> Some ''''" using assms(3) by (auto simp: statuses_def status_defs)
  then have q: "list_query r = Some q" using assms by (intro list_query_print) simp_all
  moreover have "hh_validate h (g_list_vfields q) = None"
    using g_list_vfields_ok [OF assms(1)] assms(3-6) by simp
  moreover have "query_number 1 defaultLimit (hr_query r ''limit'') = Some (gl_Limit q)"
    "query_number 0 0 (hr_query r ''offset'') = Some (gl_Offset q)"
    using assms(2,4,6) by (simp_all add: list_query_of_def query_number_print)
  ultimately show ?thesis by (simp add: parseListRequest_eq)
qed

end
