(* ===== verification/Ws_Requests.thy ===== *)
theory Ws_Requests
  imports Gateway_Requests
begin

text \<open>
  WebSocket messages as operations of the service, their answers next to those of the HTTP
  routes, and the events a client gets after \<open>user.subscribe\<close> and \<open>user.unsubscribe\<close>.
\<close>

subsection \<open>Responses\<close>

definition answers :: "ws_message \<Rightarrow> ws_response \<Rightarrow> bool" where
  "answers msg resp \<longleftrightarrow>
     wr_Action resp = wm_Action msg \<and> wr_RequestID resp = wm_RequestID msg
     \<and> (wr_Success resp \<longleftrightarrow> wr_Error resp = None)"

lemma answers_simps:
  "answers msg (ws_errorResponse msg code m)"
  "answers msg (ws_success msg p)"
  "answers msg (bad_payload msg m)"
  by (simp_all add: answers_def ws_errorResponse_def ws_success_def bad_payload_def)

lemma answers_mapServiceError: "answers msg (mapServiceError msg err)"
  by (cases err) (simp_all add: answers_simps)

lemma answers_respond:
  "snd (ws_respond msg f w r) = Return resp \<Longrightarrow> answers msg resp"
  by (auto simp: ws_respond_def answers_simps answers_mapServiceError
      split: outcome.splits sum.splits)

lemmas ws_action_defs = ws_create_def ws_get_by_id_def ws_get_by_email_def ws_list_def
  ws_update_def ws_delete_def

lemma route_cases:
  assumes "map_of NewActionRouter a = Some h"
  obtains "a = ActionUserCreate" "h = ws_create"
    | "a = ActionUserGetByID" "h = ws_get_by_id"
    | "a = ActionUserGetByEmail" "h = ws_get_by_email"
    | "a = ActionUserList" "h = ws_list"
    | "a = ActionUserUpdate" "h = ws_update"
    | "a = ActionUserDelete" "h = ws_delete"
    | "a = ActionUserSubscribe" "h = ws_subscribe_action"
    | "a = ActionUserUnsubscribe" "h = ws_unsubscribe_action"
  using assms by (auto simp: NewActionRouter_def split: if_splits)

lemma ws_Route_simps:
  "wm_Action msg = ActionUserCreate \<Longrightarrow> ws_Route d c i msg = ws_create d c i msg"
  "wm_Action msg = ActionUserGetByID \<Longrightarrow> ws_Route d c i msg = ws_get_by_id d c i msg"
  "wm_Action msg = ActionUserGetByEmail \<Longrightarrow> ws_Route d c i msg = ws_get_by_email d c i msg"
  "wm_Action msg = ActionUserList \<Longrightarrow> ws_Route d c i msg = ws_list d c i msg"
  "wm_Action msg = ActionUserUpdate \<Longrightarrow> ws_Route d c i msg = ws_update d c i msg"
  "wm_Action msg = ActionUserDelete \<Longrightarrow> ws_Route d c i msg = ws_delete d c i msg"
  "wm_Action msg = ActionUserSubscribe \<Longrightarrow> ws_Route d c i msg = ws_subscribe_action d c i msg"
  "wm_Action msg = ActionUserUnsubscribe \<Longrightarrow> ws_Route d c i msg = ws_unsubscribe_action d c i msg"
  by (simp_all add: fun_eq_iff ws_Route_def NewActionRouter_def action_defs)

lemma ws_Route_answers:
  fixes d :: "('c, 's) ws_deps"
  assumes "snd (ws_Route d c i msg w) = Return resp"
  shows "answers msg resp"
proof (cases "map_of (NewActionRouter :: (string \<times> ('c, 's) ws_action) list) (wm_Action msg)")
  case None
  then show ?thesis using assms by (auto simp: ws_Route_def answers_simps)
next
  case (Some h)
  then have "snd (h d c i msg w) = Return resp" using assms by (simp add: ws_Route_def)
  with Some show ?thesis
    by (elim route_cases)
      (auto simp: ws_action_defs ws_subscribe_action_def ws_unsubscribe_action_def Let_def
        answers_simps intro: answers_respond split: option.splits if_splits)
qed

subsection \<open>Messages as operations\<close>

definition nonempty :: "('a \<Rightarrow> string) \<Rightarrow> 'a option \<Rightarrow> 'a option" where
  "nonempty f x = Option.bind x (\<lambda>p. if f p = [] then None else Some p)"

definition list_payload :: "json option \<Rightarrow> g_list_request option" where
  "list_payload p =
     (if p \<noteq> None \<and> p \<noteq> Some JNull
      then map_option (\<lambda>req. if gl_Limit req = 0 then req\<lparr>gl_Limit := 20\<rparr> else req)
             (unmarshal dec_g_list ws_default_list p)
      else Some ws_default_list)"

text \<open>The operation a message asks for, \<open>None\<close> when the handler refuses the payload.\<close>

definition ws_operation :: "ws_message \<Rightarrow> operation option" where
  "ws_operation msg =
     (if wm_Action msg = ActionUserCreate
      then map_option (CreateOp \<circ> adapter_create_request)
             (unmarshal dec_g_create zero_g_create (wm_Payload msg))
      else if wm_Action msg = ActionUserGetByID
      then map_option (GetOp \<circ> wp_UserID)
             (nonempty wp_UserID (unmarshal dec_ws_id \<lparr>wp_UserID = ''''\<rparr> (wm_Payload msg)))
      else if wm_Action msg = ActionUserGetByEmail
      then map_option (EmailOp \<circ> wp_Email)
             (nonempty wp_Email (unmarshal dec_ws_email \<lparr>wp_Email = ''''\<rparr> (wm_Payload msg)))
      else if wm_Action msg = ActionUserList
      then map_option (ListOp \<circ> adapter_list_request) (list_payload (wm_Payload msg))
      else if wm_Action msg = ActionUserUpdate
      then map_option (\<lambda>p. UpdateOp (adapter_update_request (wu_UserID p) (wu_Request p)))
             (nonempty wu_UserID
               (unmarshal dec_ws_update \<lparr>wu_UserID = '''', wu_Request = zero_g_update\<rparr> (wm_Payload msg)))
      else if wm_Action msg = ActionUserDelete
      then map_option (DeleteOp \<circ> wp_UserID)
             (nonempty wp_UserID (unmarshal dec_ws_id \<lparr>wp_UserID = ''''\<rparr> (wm_Payload msg)))
      else None)"

text \<open>The gateway's request for one of the service, and the call of the application; no
  route and no action asks for the listing of everyone.\<close>

definition gateway_create :: "create_request \<Rightarrow> g_create_request" where
  "gateway_create q =
     \<lparr>gc_FirstName = cr_FirstName q, gc_LastName = cr_LastName q, gc_Email = cr_Email q,
      gc_Phone = cr_Phone q, gc_Age = cr_Age q, gc_Status = cr_Status q\<rparr>"

definition gateway_list :: "list_request \<Rightarrow> g_list_request" where
  "gateway_list q =
     \<lparr>gl_Status = lr_Status q, gl_Limit = lr_Limit q, gl_Offset = lr_Offset q\<rparr>"

definition gateway_update :: "update_request \<Rightarrow> g_update_request" where
  "gateway_update q =
     \<lparr>gu_FirstName = ur_FirstName q, gu_LastName = ur_LastName q, gu_Email = ur_Email q,
      gu_Phone = ur_Phone q, gu_Age = ur_Age q, gu_Status = ur_Status q\<rparr>"

lemma gateway_requests [rpc_simps]:
  "gateway_create (adapter_create_request q) = q"
  "gateway_list (adapter_list_request l) = l"
  "gateway_update (adapter_update_request i u) = u"
  "ur_UserID (adapter_update_request i u) = i"
  by (simp_all add: gateway_create_def adapter_create_request_def gateway_list_def
      adapter_list_request_def gateway_update_def adapter_update_request_def)

definition json_result :: "('a \<Rightarrow> json option) \<Rightarrow> 's \<times> 'a client_result \<Rightarrow> 's \<times> json option client_result" where
  "json_result f r = (fst r, map_result f (snd r))"

fun ask :: "('c, 's) user_port \<Rightarrow> 'c \<Rightarrow> operation \<Rightarrow> 's \<Rightarrow> 's \<times> json option client_result" where
  "ask p c (CreateOp q) s =
     json_result (\<lambda>u. Some (enc_g_user u)) (up_CreateUser p c (gateway_create q) s)"
| "ask p c (GetOp i) s = json_result (\<lambda>u. Some (enc_g_user u)) (up_GetUserByID p c i s)"
| "ask p c (EmailOp em) s = json_result (\<lambda>u. Some (enc_g_user u)) (up_GetUserByEmail p c em s)"
| "ask p c (ListOp q) s =
     json_result (\<lambda>us. Some (JArr (map enc_g_user us))) (up_ListUsers p c (gateway_list q) s)"
| "ask p c ListAllOp s = (s, Return (Inr None))"
| "ask p c (UpdateOp q) s =
     json_result (\<lambda>u. Some (enc_g_user u)) (up_UpdateUser p c (ur_UserID q) (gateway_update q) s)"
| "ask p c (DeleteOp i) s = json_result (\<lambda>_. None) (up_DeleteUser p c i s)"

lemma respond_json_result:
  "(\<And>x. g x = \<lparr>rs_status = ok, rs_content_type = ct, rs_body = f x\<rparr>) \<Longrightarrow>
   respond g r = respond (\<lambda>b. \<lparr>rs_status = ok, rs_content_type = ct, rs_body = b\<rparr>) (json_result f r)"
  by (cases r; cases "(f, snd r)" rule: map_result.cases) (simp_all add: json_result_def respond_def)

lemma ws_respond_json_result: "ws_respond msg f w r = ws_respond msg id w (json_result f r)"
  by (cases r; cases "(f, snd r)" rule: map_result.cases) (simp_all add: json_result_def ws_respond_def)

lemma ws_asks:
  assumes "ws_operation msg = Some oper"
  shows "ws_Route d c i msg w = ws_respond msg id w (ask (wd_svc d) c oper (ww_port w))"
  using assms
  by (auto simp: ws_operation_def nonempty_def list_payload_def bind_eq_Some_conv ws_Route_simps
      ws_action_defs rpc_simps ws_respond_json_result [symmetric] split: if_splits)

lemma parseListRequest_accepts:
  "\<lbrakk>list_query r = Some q; hh_validate h (g_list_vfields q) = None\<rbrakk> \<Longrightarrow> parseListRequest h r = Inr q"
  using list_query_None [of r] by (auto simp: parseListRequest_eq)

definition success_type :: "string \<times> string \<Rightarrow> string option" where
  "success_type k = (if fst k = ''DELETE'' then None else Some ''application/json'')"

lemma http_asks:
  assumes h: "validator_documented (hh_validate h) is_email is_uuid"
    and d: "documented d is_email is_uuid" and act: "(k, act) \<in> set RegisterRoutes"
    and oper: "http_operation k r = Some oper" "accepted d oper"
  shows "act h c r s =
    respond (\<lambda>b. \<lparr>rs_status = success_status k, rs_content_type = success_type k, rs_body = b\<rparr>)
      (ask (hh_service h) c oper s)"
proof -
  note acc = http_accepts [OF h d]
  have st: "success_status (''POST'', x) = StatusCreated" "success_status (''GET'', x) = StatusOK"
    "success_status (''PUT'', x) = StatusOK" "success_status (''DELETE'', x) = StatusNoContent"
    "success_type (''POST'', x) = Some ''application/json''"
    "success_type (''GET'', x) = Some ''application/json''"
    "success_type (''PUT'', x) = Some ''application/json''" "success_type (''DELETE'', x) = None" for x
    by (simp_all add: success_status_def success_type_def)
  show ?thesis
    using act oper
    by (auto simp: RegisterRoutes_def http_operation_def path_defs acc rpc_simps st writeJSON_def
        parseListRequest_accepts
        http_handleCreate_def http_handleList_def http_handleGetByEmail_def
        http_handleGetByID_def http_handleUpdate_def http_handleDelete_def Let_def
        simp del: accepted.simps
        intro!: respond_json_result)
qed

text \<open>
  The same call has the same effect over HTTP and WebSocket, and the same answer: the body of a
  response is the payload of the other, or an error with the same code and message.
\<close>

fun same_answer :: "ws_response outcome \<Rightarrow> http_response outcome \<Rightarrow> bool" where
  "same_answer (Panic m) r = (r = Panic m)"
| "same_answer (Return ws) (Return http) =
     (rs_body http = (case wr_Error ws of
        None \<Rightarrow> wr_Payload ws
      | Some e \<Rightarrow> Some (http_errorResponse (we_Code e) (we_Message e))))"
| "same_answer (Return ws) (Panic m) = False"

lemma mapServiceError_same:
  "snd (mapClientError err) = http_errorResponse
     (we_Code (the (wr_Error (mapServiceError msg err)))) (we_Message (the (wr_Error (mapServiceError msg err))))
   \<and> wr_Error (mapServiceError msg err) \<noteq> None"
  by (cases err) (simp_all add: ws_errorResponse_def)

lemma respond_same:
  "fst (respond (\<lambda>b. \<lparr>rs_status = ok, rs_content_type = ct, rs_body = b\<rparr>) r) = ww_port (fst (ws_respond msg id w r))
   \<and> same_answer (snd (ws_respond msg id w r))
       (snd (respond (\<lambda>b. \<lparr>rs_status = ok, rs_content_type = ct, rs_body = b\<rparr>) r))"
proof (cases "snd r")
  case (Return res)
  then show ?thesis
    using mapServiceError_same [of "projl res" msg]
    by (cases r; cases res)
      (auto simp: respond_def ws_respond_def ws_success_def writeJSON_def split: prod.split option.split)
qed (cases r; simp add: respond_def ws_respond_def)

subsection \<open>Listings from the cache\<close>

lemma ws_list_negative_offset:
  assumes op: "ws_operation msg = Some (ListOp q)" and neg: "sint (lr_Offset q) < 0"
    and svc: "wd_svc wd = gateway_app d svc it" and w: "ww_port w = (cl, db)"
    and cl: "cl_cache cl = Some cache" "cl_fullyLoaded cl"
    and it: "iteration_ok (it c) cache" and u: "u \<in> ran cache" "status_wanted (lr_Status q) u"
  shows "\<exists>m. snd (ws_Route wd c i msg w) = Panic m"
proof -
  let ?l = "if lr_Limit q = 0 then defaultListLimit else lr_Limit q"
  have "?l \<noteq> 0" by (simp add: defaultListLimit_def)
  moreover have "u \<in> set (filter (status_wanted (lr_Status q)) (cache_values (it c) cache))"
    using u by (simp add: cache_values_set [OF it])
  then have "filter (status_wanted (lr_Status q)) (cache_values (it c) cache) \<noteq> []" by force
  ultimately obtain m where m: "cache_list (it c) cache (lr_Status q) ?l (lr_Offset q) = Panic m"
    using neg cache_list_panics_iff [of "it c" cache "lr_Status q" ?l "lr_Offset q"]
    by (fastforce simp: neq_Nil_conv)
  have q: "adapter_list_request (gateway_list q) = q"
    by (simp add: adapter_list_request_def gateway_list_def)
  have "snd (ask (wd_svc wd) c (ListOp q) (ww_port w)) = Panic m"
    using m cl w svc
    by (cases "lr_Limit q = 0")
      (simp_all add: json_result_def rpc_simps adapter_ListUsers_def q client_ListUsers_def)
  then show ?thesis
    by (simp add: ws_asks [OF op] ws_respond_def)
qed

subsection \<open>Subscriptions\<close>

lemma broadcast_event_type:
  "broadcast_of_event e = Some (t, resp) \<Longrightarrow> t \<in> set ws_eventTypes"
  by (auto simp: broadcast_of_event_def ws_eventTypes_def Let_def split: if_splits payload.splits)

lemma update_client_other [ws_simps]:
  "hs_clients (update_client i f h) j =
     (if j = i then map_option f (hs_clients h i) else hs_clients h j)"
  "hs_registered (update_client i f h) = hs_registered h"
  "hs_broadcast (update_client i f h) = hs_broadcast h"
  by (auto simp: update_client_def ws_simps split: option.split)

lemma update_clients [ws_simps]:
  "hs_clients (fold (\<lambda>t. update_client i (f t)) ts h) j =
     (if j = i then map_option (fold f ts) (hs_clients h i) else hs_clients h j)"
  "hs_registered (fold (\<lambda>t. update_client i (f t)) ts h) = hs_registered h"
  "hs_broadcast (fold (\<lambda>t. update_client i (f t)) ts h) = hs_broadcast h"
  by (induction ts arbitrary: h)
    (auto simp: ws_simps map_option.compositionality comp_def option.map_id0 split: if_splits)

lemma fold_ws_subscribe:
  "fold ws_subscribe ts = (\<lambda>c. c\<lparr>wc_subscriptions := wc_subscriptions c \<union> set ts\<rparr>)"
  by (induction ts) (simp_all add: fun_eq_iff ws_subscribe_def)

lemma fold_ws_unsubscribe:
  "fold ws_unsubscribe ts c = c\<lparr>wc_subscriptions := wc_subscriptions c - set ts\<rparr>"
proof (induction ts arbitrary: c)
  case (Cons t ts)
  have "wc_subscriptions c - {t} - set ts = wc_subscriptions c - set (t # ts)" by auto
  with Cons show ?case by (simp add: ws_unsubscribe_def)
qed simp

text \<open>A client that is not subscribed is left alone by broadcasts.\<close>

lemma hub_drop_other:
  "hub_drop i h = Return h' \<Longrightarrow> j \<noteq> i \<Longrightarrow> hs_clients h' j = hs_clients h j"
  by (auto simp: hub_drop_def ws_simps split: option.splits outcome.splits)

lemma hub_deliver_unsubscribed:
  assumes "hub_deliver msg i h = Return h'" and "\<And>c. hs_clients h j = Some c \<Longrightarrow> \<not> isSubscribed c (fst msg)"
  shows "hs_clients h' j = hs_clients h j"
  using assms hub_drop_other [of i h h' j]
  by (auto simp: hub_deliver_def ws_simps split: option.splits outcome.splits if_splits)

lemma hub_broadcast_unsubscribed:
  "\<lbrakk>hub_broadcast msg it h = Return h'; \<And>c. hs_clients h j = Some c \<Longrightarrow> \<not> isSubscribed c (fst msg)\<rbrakk>
    \<Longrightarrow> hs_clients h' j = hs_clients h j"
proof (induction it arbitrary: h)
  case (Cons i it)
  then obtain h1 where h1: "hub_deliver msg i h = Return h1" "hub_broadcast msg it h1 = Return h'"
    by (auto split: outcome.splits)
  have "hs_clients h1 j = hs_clients h j" using h1(1) Cons.prems(2) by (rule hub_deliver_unsubscribed)
  with Cons.IH [OF h1(2)] Cons.prems(2) show ?case by simp
qed simp

lemma hub_takes_all_unsubscribed:
  "\<lbrakk>hub_takes_all bs its h = Return h';
    \<And>c t resp. \<lbrakk>hs_clients h j = Some c; (t, resp) \<in> set bs\<rbrakk> \<Longrightarrow> \<not> isSubscribed c t\<rbrakk>
    \<Longrightarrow> hs_clients h' j = hs_clients h j"
proof (induction bs its h rule: hub_takes_all.induct)
  case (3 b bs it its h)
  then obtain h1 where h1: "hub_broadcast b it h = Return h1" "hub_takes_all bs its h1 = Return h'"
    by (auto split: outcome.splits)
  have same: "hs_clients h1 j = hs_clients h j"
    using h1(1) 3(3) [of _ "fst b" "snd b"] by (intro hub_broadcast_unsubscribed) auto
  then show ?case
    using 3(1) [OF h1] 3(3) by (metis list.set_intros(2))
qed simp_all

lemma event_broadcasts_types:
  "(t, resp) \<in> set (event_broadcasts s data w) \<Longrightarrow> t \<in> set ws_eventTypes"
proof (cases "Option.bind (event_of_msg s data) broadcast_of_event")
  case (Some b)
  moreover assume "(t, resp) \<in> set (event_broadcasts s data w)"
  ultimately have "Option.bind (event_of_msg s data) broadcast_of_event = Some (t, resp)"
    by (simp add: event_broadcasts_def)
  then show ?thesis by (auto simp: bind_eq_Some_conv dest: broadcast_event_type)
qed (simp add: event_broadcasts_def)

lemma unsubscribed_gets_nothing:
  assumes msg: "wm_Action msg = ActionUserUnsubscribe"
    and w': "w' = fst (ws_Route d c i msg w)"
    and run: "hub_takes_all (event_broadcasts s data v) its (ww_hub w') = Return h"
  shows "hs_clients h i = hs_clients (ww_hub w') i"
  using run
proof (rule hub_takes_all_unsubscribed)
  fix cl t resp
  assume cl: "hs_clients (ww_hub w') i = Some cl" and "(t, resp) \<in> set (event_broadcasts s data v)"
  then have "t \<in> set ws_eventTypes" by (intro event_broadcasts_types)
  moreover have "wc_subscriptions cl \<inter> set ws_eventTypes = {}"
    using cl w' msg
    by (auto simp: ws_Route_simps ws_unsubscribe_action_def ws_simps fold_ws_unsubscribe)
  ultimately show "\<not> isSubscribed cl t" by (auto simp: isSubscribed_def)
qed

text \<open>A client that subscribes again starts another forwarder.\<close>

definition ws_repeat ::
  "('c, 's) ws_deps \<Rightarrow> 'c \<Rightarrow> nat \<Rightarrow> ws_message \<Rightarrow> nat \<Rightarrow> 's ws_world \<Rightarrow> 's ws_world" where
  "ws_repeat d c i msg n = (\<lambda>w. fst (ws_Route d c i msg w)) ^^ n"

lemma subscribed_world:
  assumes "wm_Action msg = ActionUserSubscribe" and "wd_Subscribe d c = None"
  shows "ww_forwarders (ws_repeat d c i msg n w) = ww_forwarders w + n
    \<and> hs_registered (ww_hub (ws_repeat d c i msg n w)) = hs_registered (ww_hub w)
    \<and> hs_clients (ww_hub (ws_repeat d c i msg n w)) i =
        (if n = 0 then hs_clients (ww_hub w) i
         else map_option (\<lambda>cl. cl\<lparr>wc_subscriptions := wc_subscriptions cl \<union> set ws_eventTypes\<rparr>)
                (hs_clients (ww_hub w) i))"
proof (induction n)
  case (Suc n)
  have "ws_repeat d c i msg (Suc n) w = fst (ws_subscribe_action d c i msg (ws_repeat d c i msg n w))"
    using assms(1) by (simp add: ws_repeat_def ws_Route_simps)
  with Suc assms(2) show ?case
    by (auto simp: ws_subscribe_action_def ws_simps fold_ws_subscribe
        map_option.compositionality comp_def)
qed (simp add: ws_repeat_def)

subsection \<open>Concrete values\<close>

definition plain_gateway :: "(pg_env, (table \<times> (string \<times> json) list) client_state) http_handler" where
  "plain_gateway =
     \<lparr>hh_service = gateway_app plain_deps pg_service (\<lambda>_. [''x'']),
      hh_validate = plain_validator plain_email plain_uuid\<rparr>"

definition plain_ws :: "(pg_env, (table \<times> (string \<times> json) list) client_state) ws_deps" where
  "plain_ws =
     \<lparr>wd_svc = gateway_app plain_deps pg_service (\<lambda>_. [''x'']), wd_Subscribe = (\<lambda>_. None)\<rparr>"

definition http_get :: "string \<Rightarrow> http_request" where
  "http_get i = \<lparr>hr_param = (\<lambda>_. i), hr_query = (\<lambda>_. ''''), hr_body = None\<rparr>"

definition http_post :: "json \<Rightarrow> http_request" where
  "http_post j = \<lparr>hr_param = (\<lambda>_. ''''), hr_query = (\<lambda>_. ''''), hr_body = Some j\<rparr>"

definition ws_ask :: "string \<Rightarrow> json option \<Rightarrow> ws_message" where
  "ws_ask a p = \<lparr>wm_Action = a, wm_RequestID = ''1'', wm_Payload = p\<rparr>"

definition ada_client :: client where
  "ada_client =
     \<lparr>cl_cache = Some (client_view plain_deps (pg_users [ada_row])), cl_fullyLoaded = True\<rparr>"

definition one_client :: "'s \<Rightarrow> 's ws_world" where
  "one_client s =
     \<lparr>ww_port = s, ww_hub = hub_register 0 (set_client 0 (newClient ws_DefaultConfig) NewHub),
      ww_forwarders = 0\<rparr>"

lemma plain_over [simp]:
  "http_over plain_gateway plain_deps (\<lambda>_. [''x'']) plain_email plain_uuid"
  "validator_documented (hh_validate plain_gateway) plain_email plain_uuid"
  by (simp_all add: http_over_def plain_gateway_def plain_validator_documented)

lemma http_post_ada [simp]:
  "http_operation (''POST'', PathUsers) (http_post (enc_create_request ada_request)) =
     Some (CreateOp ada_request)"
  by code_simp

lemma http_get_operation [simp]:
  "http_operation (''GET'', PathUserByID) (http_get i) = Some (GetOp i)"
  by (simp add: http_operation_eqs http_get_def)

lemma ws_ask_get [simp]:
  "ws_operation (ws_ask ActionUserGetByID (Some (JObj [(''user_id'', JStr ''x'')]))) = Some (GetOp ''x'')"
  by code_simp

lemma ws_ask_list [simp]:
  "ws_operation (ws_ask ActionUserList (Some (JObj [(''Offset'', JInt (- 1))]))) =
     Some (ListOp \<lparr>lr_Status = None, lr_Limit = 20, lr_Offset = - 1\<rparr>)"
  by code_simp

lemma one_client_simps:
  "ww_forwarders (one_client s) = 0"
  "ww_port (one_client s) = s"
  "hs_registered (ww_hub (one_client s)) = {0}"
  "hs_clients (ww_hub (one_client s)) 0 = Some (newClient ws_DefaultConfig)"
  "ch_closed (wc_send (newClient cfg)) = False"
  "ch_buf (wc_send (newClient cfg)) = []"
  "ch_cap (wc_send (newClient ws_DefaultConfig)) = 256"
  by (simp_all add: one_client_def hub_register_def ws_simps NewHub_def newClient_def make_chan_def
      ws_DefaultConfig_def sendBufferSize_def)

definition deleted_x :: ws_response where
  "deleted_x =
     \<lparr>wr_Action = ''user.deleted'', wr_RequestID = '''', wr_Success = True,
      wr_Payload = Some (JObj [(''user_id'', JStr ''x'')]), wr_Error = None\<rparr>"

lemma deleted_x_event:
  "event_broadcasts SubjectUserDeleted (Some (enc_deleted_event \<lparr>evt_UserID = ''x''\<rparr>)) w =
     replicate (ww_forwarders w) (''user.deleted'', deleted_x)"
proof -
  have "event_of_msg SubjectUserDeleted (Some (enc_deleted_event \<lparr>evt_UserID = ''x''\<rparr>)) =
      Some \<lparr>ev_Type = ''deleted'', ev_Payload = DeletedPayload \<lparr>evt_UserID = ''x''\<rparr>\<rparr>"
    by code_simp
  then show ?thesis by (simp add: event_broadcasts_def broadcast_of_event_def deleted_x_def)
qed

end
