(* ===== verification/Request_Logger.thy ===== *)
theory Request_Logger
  imports Ws_Requests
begin

text \<open>
  The request logger around every handler of the gateway (\<open>middleware/logging.go\<close>). The writer
  net/http hands to a handler is the state of the response it stands for; the middleware wraps
  it and keeps the status of its own. A handler is a function of the writer, with the text of
  its panic if it does not return.
\<close>

subsection \<open>The writer of net/http\<close>

text \<open>
  \<open>nw_status\<close> is the status line on the connection, \<open>None\<close> while there is none. The first
  final status counts, later calls are ignored, and so is every call after \<open>Hijack\<close>, which
  gives the connection to the caller. A body without a status has status 200.
\<close>

record net_writer =
  nw_content_type :: "string option"
  nw_status :: "nat option"
  nw_body :: "json list"
  nw_hijacker :: bool
  nw_hijacked :: bool

definition new_writer :: "bool \<Rightarrow> net_writer" where
  "new_writer hijacker =
     \<lparr>nw_content_type = None, nw_status = None, nw_body = [], nw_hijacker = hijacker,
      nw_hijacked = False\<rparr>"

definition nw_SetContentType :: "string option \<Rightarrow> net_writer \<Rightarrow> net_writer" where
  "nw_SetContentType ct w = (if nw_status w = None then w\<lparr>nw_content_type := ct\<rparr> else w)"

definition nw_WriteHeader :: "nat \<Rightarrow> net_writer \<Rightarrow> net_writer" where
  "nw_WriteHeader status w =
     (if nw_hijacked w \<or> nw_status w \<noteq> None then w else w\<lparr>nw_status := Some status\<rparr>)"

definition nw_Write :: "json \<Rightarrow> net_writer \<Rightarrow> net_writer" where
  "nw_Write body w =
     (if nw_hijacked w then w
      else let w' = nw_WriteHeader StatusOK w in w'\<lparr>nw_body := nw_body w' @ [body]\<rparr>)"

definition nw_Hijack :: "net_writer \<Rightarrow> net_writer option" where
  "nw_Hijack w = (if nw_hijacker w \<and> \<not> nw_hijacked w then Some (w\<lparr>nw_hijacked := True\<rparr>) else None)"

text \<open>What the peer has received of the response when the handler has returned.\<close>

definition received_response :: "net_writer \<Rightarrow> http_response" where
  "received_response w =
     \<lparr>rs_status = (case nw_status w of None \<Rightarrow> StatusOK | Some s \<Rightarrow> s),
      rs_content_type = nw_content_type w,
      rs_body = (case nw_body w of [] \<Rightarrow> None | body # _ \<Rightarrow> Some body)\<rparr>"

subsection \<open>The writer of the middleware\<close>

record responseWriter =
  rw_inner :: net_writer
  rw_status :: nat

definition rw_WriteHeader :: "nat \<Rightarrow> responseWriter \<Rightarrow> responseWriter" where
  "rw_WriteHeader status rw =
     rw\<lparr>rw_status := status, rw_inner := nw_WriteHeader status (rw_inner rw)\<rparr>"

text \<open>
  \<open>Header\<close> and \<open>Write\<close> are those of the embedded writer; \<open>Hijack\<close> is an error when that
  cannot be taken over.
\<close>

definition rw_SetContentType :: "string option \<Rightarrow> responseWriter \<Rightarrow> responseWriter" where
  "rw_SetContentType ct rw = rw\<lparr>rw_inner := nw_SetContentType ct (rw_inner rw)\<rparr>"

definition rw_Write :: "json \<Rightarrow> responseWriter \<Rightarrow> responseWriter" where
  "rw_Write body rw = rw\<lparr>rw_inner := nw_Write body (rw_inner rw)\<rparr>"

definition rw_Hijack :: "responseWriter \<Rightarrow> string + responseWriter" where
  "rw_Hijack rw =
     (if \<not> nw_hijacker (rw_inner rw)
      then Inl ''underlying ResponseWriter does not implement http.Hijacker''
      else case nw_Hijack (rw_inner rw) of
             None \<Rightarrow> Inl ''http: connection has been hijacked''
           | Some w \<Rightarrow> Inr (rw\<lparr>rw_inner := w\<rparr>))"

record log_entry =
  le_method :: string
  le_path :: string
  le_status :: nat

type_synonym http_next = "responseWriter \<Rightarrow> responseWriter \<times> string option"

definition RequestLogger ::
  "http_next \<Rightarrow> string \<Rightarrow> string \<Rightarrow> net_writer \<Rightarrow> net_writer \<times> (string + log_entry)" where
  "RequestLogger next_handler meth path w =
     (case next_handler \<lparr>rw_inner = w, rw_status = StatusOK\<rparr> of
        (rw, Some m) \<Rightarrow> (rw_inner rw, Inl m)
      | (rw, None) \<Rightarrow>
          (rw_inner rw, Inr \<lparr>le_method = meth, le_path = path, le_status = rw_status rw\<rparr>))"

subsection \<open>The handlers on a writer\<close>

text \<open>\<open>writeJSON\<close>, and \<open>w.WriteHeader(http.StatusNoContent)\<close> where there is no body.\<close>

definition write_response :: "http_response \<Rightarrow> responseWriter \<Rightarrow> responseWriter" where
  "write_response resp rw =
     (let rw1 = (case rs_content_type resp of
                   None \<Rightarrow> rw
                 | Some ct \<Rightarrow> rw_SetContentType (Some ct) rw);
          rw2 = rw_WriteHeader (rs_status resp) rw1
      in case rs_body resp of None \<Rightarrow> rw2 | Some body \<Rightarrow> rw_Write body rw2)"

fun http_next :: "http_response outcome \<Rightarrow> http_next" where
  "http_next (Return resp) rw = (write_response resp rw, None)"
| "http_next (Panic m) rw = (rw, Some m)"

text \<open>
  The WebSocket endpoint. The upgrader is a parameter; its documentation: it refuses a request
  with an error status, or it takes the connection over and sends status 101 on it. \<open>pump\<close> is
  how the read pump ends, after which \<open>ServeHTTP\<close> returns: the text of its panic, if any.
\<close>

definition StatusSwitchingProtocols :: nat where "StatusSwitchingProtocols = 101"

type_synonym 'r upgrader = "'r \<Rightarrow> responseWriter \<Rightarrow> responseWriter \<times> bool"

definition switch_protocols :: "responseWriter \<Rightarrow> responseWriter" where
  "switch_protocols rw =
     rw\<lparr>rw_inner := (rw_inner rw)\<lparr>nw_status := Some StatusSwitchingProtocols\<rparr>\<rparr>"

definition upgrader_documented :: "'r upgrader \<Rightarrow> bool" where
  "upgrader_documented upgrade \<longleftrightarrow>
     (\<forall>r rw. (\<exists>status body. StatusBadRequest \<le> status
          \<and> upgrade r rw = (rw_Write body (rw_WriteHeader status rw), False))
        \<or> (\<exists>rw'. rw_Hijack rw = Inr rw' \<and> upgrade r rw = (switch_protocols rw', True)))"

definition ws_next :: "'r upgrader \<Rightarrow> string option \<Rightarrow> 'r \<Rightarrow> http_next" where
  "ws_next upgrade pump r rw =
     (case upgrade r rw of
        (rw', False) \<Rightarrow> (rw', None)
      | (rw', True) \<Rightarrow> (rw', pump))"

subsection \<open>Lemmas\<close>

lemmas writer_defs = rw_WriteHeader_def rw_Write_def rw_SetContentType_def nw_WriteHeader_def
  nw_Write_def nw_SetContentType_def new_writer_def

lemma write_response_sent:
  assumes "rw_inner rw = new_writer hj"
  shows "rw_status (write_response resp rw) = rs_status resp
    \<and> nw_status (rw_inner (write_response resp rw)) = Some (rs_status resp)
    \<and> received_response (rw_inner (write_response resp rw)) = resp"
  using assms
  by (cases "rs_content_type resp"; cases "rs_body resp")
    (simp_all add: write_response_def writer_defs received_response_def)

text \<open>An upgrader for concrete values: it refuses what does not ask for an upgrade.\<close>

definition plain_upgrader :: "bool upgrader" where
  "plain_upgrader r rw =
     (let refuse = (\<lambda>status. (rw_Write (JStr ''upgrade refused'') (rw_WriteHeader status rw), False)) in
      if \<not> r then refuse StatusBadRequest
      else case rw_Hijack rw of
             Inl m \<Rightarrow> refuse StatusInternalServerError
           | Inr rw' \<Rightarrow> (switch_protocols rw', True))"

lemma plain_upgrader_documented: "upgrader_documented plain_upgrader"
proof -
  have "StatusBadRequest \<le> StatusBadRequest" "StatusBadRequest \<le> StatusInternalServerError"
    by (simp_all add: http_status_defs)
  then show ?thesis
    unfolding upgrader_documented_def plain_upgrader_def Let_def
    by (simp split: sum.split) blast
qed

subsection \<open>Properties\<close>

text \<open>
  C26. Every request to one of the routes gets a response and is logged with the status that was
  sent: the handler does not panic, what it writes reaches the peer unchanged through the
  middleware, and the log entry carries the status of the response.
\<close>

theorem logged_status_is_sent:
  assumes "http_over h d it is_email is_uuid" and "(k, act) \<in> set RegisterRoutes"
  shows "\<exists>s' resp w. act h c r s = (s', Return resp)
    \<and> RequestLogger (http_next (Return resp)) meth path (new_writer hj) =
        (w, Inr \<lparr>le_method = meth, le_path = path, le_status = rs_status resp\<rparr>)
    \<and> nw_status w = Some (rs_status resp) \<and> received_response w = resp"
proof -
  have h: "hh_service h = gateway_app d pg_service it"
    "validator_documented (hh_validate h) is_email is_uuid"
    using assms(1) by (simp_all add: http_over_def)
  obtain s' o' where run: "act h c r s = (s', o')" by (cases "act h c r s")
  have "o' \<noteq> Panic m" for m
    using gateway.routes_quiet [OF h(2,1) assms(2), of c r s m] run by simp
  then obtain resp where "o' = Return resp" by (cases o') auto
  with run write_response_sent [of "\<lparr>rw_inner = new_writer hj, rw_status = StatusOK\<rparr>" hj resp]
  show ?thesis by (cases s') (simp add: RequestLogger_def)
qed

theorem logged_status_is_sent_witness:
  "\<exists>s' resp w. http_handleGetByID plain_gateway (plain_env 1) (http_get ''no id'') (NewWithConn, [], []) =
      (s', Return resp)
    \<and> RequestLogger (http_next (Return resp)) ''GET'' ''/api/v1/users/x'' (new_writer True) =
        (w, Inr \<lparr>le_method = ''GET'', le_path = ''/api/v1/users/x'', le_status = rs_status resp\<rparr>)"
  using logged_status_is_sent [OF plain_over(1), of "(''GET'', PathUserByID)" http_handleGetByID]
  by (fastforce simp: RegisterRoutes_def)

text \<open>
  C27. The log does not tell the truth about WebSocket connections: an upgraded request is logged
  with status 200 although 101 was sent, since the upgrade goes past the middleware's
  \<open>WriteHeader\<close>. A refused one is logged with its error status.
\<close>

theorem upgrade_is_logged_as_ok:
  assumes "upgrader_documented upgrade"
    and "RequestLogger (ws_next upgrade None r) meth path (new_writer hj) = (w, Inr e)"
  shows "if nw_hijacked w
    then hj \<and> nw_status w = Some StatusSwitchingProtocols \<and> le_status e = StatusOK
    else nw_status w = Some (le_status e) \<and> StatusBadRequest \<le> le_status e"
proof -
  let ?rw = "\<lparr>rw_inner = new_writer hj, rw_status = StatusOK\<rparr>"
  consider (refused) status body where "StatusBadRequest \<le> status"
      "upgrade r ?rw = (rw_Write body (rw_WriteHeader status ?rw), False)"
    | (upgraded) rw' where "rw_Hijack ?rw = Inr rw'" "upgrade r ?rw = (switch_protocols rw', True)"
    using assms(1) unfolding upgrader_documented_def by blast
  then show ?thesis
  proof cases
    case refused
    then show ?thesis using assms(2) by (auto simp: RequestLogger_def ws_next_def writer_defs)
  next
    case upgraded
    then show ?thesis using assms(2)
      by (auto simp: RequestLogger_def ws_next_def rw_Hijack_def nw_Hijack_def switch_protocols_def
          new_writer_def split: if_splits)
  qed
qed

theorem upgrade_is_logged_as_ok_witness:
  "case RequestLogger (ws_next plain_upgrader None True) ''GET'' ''/api/v1/ws'' (new_writer True) of
     (w, Inr e) \<Rightarrow> nw_status w = Some StatusSwitchingProtocols \<and> le_status e = StatusOK
   | (w, Inl m) \<Rightarrow> False"
proof -
  obtain w e where run: "RequestLogger (ws_next plain_upgrader None True) ''GET'' ''/api/v1/ws''
      (new_writer True) = (w, Inr e)" and "nw_hijacked w"
    by (simp add: RequestLogger_def ws_next_def plain_upgrader_def rw_Hijack_def nw_Hijack_def
        switch_protocols_def new_writer_def)
  with upgrade_is_logged_as_ok [OF plain_upgrader_documented run] show ?thesis by simp
qed

end
