(* ===== verification/Ws_Connection.thy ===== *)
theory Ws_Connection
  imports Ws_Requests
begin

text \<open>
  The life of a WebSocket connection (\<open>wshandler/handler.go\<close>: \<open>ServeHTTP\<close>; \<open>client.go\<close>:
  \<open>readPump\<close>, \<open>writePump\<close>). Each connection has two goroutines. Where one of them is between
  two of its operations is a value, and a step relation interleaves the operations of all
  connections with those of the hub and the event forwarders. What the connection itself does
  (deadlines that cannot be set, frames, errors of reads, writes and pings) is in the labels.
\<close>

text \<open>
  \<open>Sending\<close> is the blocking \<open>c.send <- resp\<close> of a handler, \<open>Leaving\<close> the deferred function of
  \<open>readPump\<close>, which also runs when a handler panics; net/http recovers the panic after it.
\<close>

datatype reader = Starting | Reading | Sending ws_response | Leaving | Gone

datatype writer = Waiting | Holding ws_response | Stopped

record ws_conn =
  ct_reader :: reader
  ct_writer :: writer
  ct_open :: bool

record 's gateway =
  gy_world :: "'s ws_world"
  gy_conns :: "nat \<rightharpoonup> ws_conn"

definition start_gateway :: "'s \<Rightarrow> 's gateway" where
  "start_gateway s =
     \<lparr>gy_world = \<lparr>ww_port = s, ww_hub = NewHub, ww_forwarders = 0\<rparr>, gy_conns = Map.empty\<rparr>"

abbreviation gy_hub :: "'s gateway \<Rightarrow> hub_state" where
  "gy_hub g \<equiv> ww_hub (gy_world g)"

definition set_hub :: "hub_state \<Rightarrow> 's gateway \<Rightarrow> 's gateway" where
  "set_hub h g = g\<lparr>gy_world := (gy_world g)\<lparr>ww_hub := h\<rparr>\<rparr>"

definition set_conn :: "nat \<Rightarrow> ws_conn \<Rightarrow> 's gateway \<Rightarrow> 's gateway" where
  "set_conn i ct g = g\<lparr>gy_conns := (gy_conns g)(i \<mapsto> ct)\<rparr>"

lemma gateway_simps [ws_simps]:
  "gy_world (set_conn i ct g) = gy_world g"
  "gy_conns (set_conn i ct g) = (gy_conns g)(i \<mapsto> ct)"
  "gy_conns (set_hub h g) = gy_conns g"
  "ww_hub (gy_world (set_hub h g)) = h"
  by (simp_all add: set_conn_def set_hub_def)

subsection \<open>Steps\<close>

text \<open>
  \<open>ServeHTTP\<close> after a successful upgrade: the client is created, registered with the hub, and its
  pumps start.
\<close>

definition ServeHTTP :: "ws_config \<Rightarrow> nat \<Rightarrow> 's gateway \<Rightarrow> 's gateway" where
  "ServeHTTP cfg i g =
     set_conn i \<lparr>ct_reader = Starting, ct_writer = Waiting, ct_open = True\<rparr>
       (set_hub (hub_register i (set_client i (newClient cfg) (gy_hub g))) g)"

text \<open>The first response in the client's buffer, as the write pump receives it.\<close>

definition take_response :: "nat \<Rightarrow> hub_state \<Rightarrow> (hub_state \<times> ws_response) option" where
  "take_response i h =
     (case hs_clients h i of
        None \<Rightarrow> None
      | Some c \<Rightarrow>
          (case ch_buf (wc_send c) of
             [] \<Rightarrow> None
           | r # rs \<Rightarrow> Some (set_client i (c\<lparr>wc_send := (wc_send c)\<lparr>ch_buf := rs\<rparr>\<rparr>) h, r)))"

definition send_closed :: "nat \<Rightarrow> hub_state \<Rightarrow> bool" where
  "send_closed i h \<longleftrightarrow>
     (\<exists>c. hs_clients h i = Some c \<and> ch_buf (wc_send c) = [] \<and> ch_closed (wc_send c))"

datatype 'c conn_label =
    Upgrade nat
  | UpgradeFails
  | SetDeadline nat bool
  | ReadFrame nat 'c "json option"
  | ReadFails nat
  | SendDone nat
  | SendPanics nat
  | Leave nat
  | Take nat
  | Written nat bool
  | SeeClosed nat
  | Ping nat bool
  | HubBroadcasts "nat list"
  | Forwarded string ws_response

definition stop_writer :: "ws_conn \<Rightarrow> ws_conn" where
  "stop_writer ct = ct\<lparr>ct_writer := Stopped, ct_open := False\<rparr>"

inductive conn_step ::
  "ws_config \<Rightarrow> ('c, 's) ws_deps \<Rightarrow> 's gateway \<Rightarrow> 'c conn_label \<Rightarrow> 's gateway \<Rightarrow> bool"
  for cfg d where
  upgrade: "gy_conns g i = None \<Longrightarrow> conn_step cfg d g (Upgrade i) (ServeHTTP cfg i g)"
| upgrade_fails: "conn_step cfg d g UpgradeFails g"
| set_deadline: "\<lbrakk>gy_conns g i = Some ct; ct_reader ct = Starting; ok \<longrightarrow> ct_open ct\<rbrakk> \<Longrightarrow>
    conn_step cfg d g (SetDeadline i ok)
      (set_conn i (ct\<lparr>ct_reader := if ok then Reading else Leaving\<rparr>) g)"
| read_frame: "\<lbrakk>gy_conns g i = Some ct; ct_reader ct = Reading; ct_open ct;
      ws_read d c i frame (gy_world g) = Some (w', Return resp)\<rbrakk> \<Longrightarrow>
    conn_step cfg d g (ReadFrame i c frame)
      (set_conn i (ct\<lparr>ct_reader := Sending resp\<rparr>) (g\<lparr>gy_world := w'\<rparr>))"
| read_panics: "\<lbrakk>gy_conns g i = Some ct; ct_reader ct = Reading; ct_open ct;
      ws_read d c i frame (gy_world g) = Some (w', Panic m)\<rbrakk> \<Longrightarrow>
    conn_step cfg d g (ReadFrame i c frame)
      (set_conn i (ct\<lparr>ct_reader := Leaving\<rparr>) (g\<lparr>gy_world := w'\<rparr>))"
| bad_frame: "\<lbrakk>gy_conns g i = Some ct; ct_reader ct = Reading; ct_open ct;
      ws_read d c i frame (gy_world g) = None\<rbrakk> \<Longrightarrow>
    conn_step cfg d g (ReadFrame i c frame) (set_conn i (ct\<lparr>ct_reader := Leaving\<rparr>) g)"
| read_fails: "\<lbrakk>gy_conns g i = Some ct; ct_reader ct = Reading\<rbrakk> \<Longrightarrow>
    conn_step cfg d g (ReadFails i) (set_conn i (ct\<lparr>ct_reader := Leaving\<rparr>) g)"
| send_done: "\<lbrakk>gy_conns g i = Some ct; ct_reader ct = Sending resp;
      client_send i resp (gy_hub g) = Return (Some h)\<rbrakk> \<Longrightarrow>
    conn_step cfg d g (SendDone i) (set_conn i (ct\<lparr>ct_reader := Reading\<rparr>) (set_hub h g))"
| send_panics: "\<lbrakk>gy_conns g i = Some ct; ct_reader ct = Sending resp;
      client_send i resp (gy_hub g) = Panic m\<rbrakk> \<Longrightarrow>
    conn_step cfg d g (SendPanics i) (set_conn i (ct\<lparr>ct_reader := Leaving\<rparr>) g)"
| leave: "\<lbrakk>gy_conns g i = Some ct; ct_reader ct = Leaving;
      hub_unregister i (gy_hub g) = Return h\<rbrakk> \<Longrightarrow>
    conn_step cfg d g (Leave i)
      (set_conn i (ct\<lparr>ct_reader := Gone, ct_open := False\<rparr>) (set_hub h g))"
| take_resp: "\<lbrakk>gy_conns g i = Some ct; ct_writer ct = Waiting;
      take_response i (gy_hub g) = Some (h, resp)\<rbrakk> \<Longrightarrow>
    conn_step cfg d g (Take i) (set_conn i (ct\<lparr>ct_writer := Holding resp\<rparr>) (set_hub h g))"
| written: "\<lbrakk>gy_conns g i = Some ct; ct_writer ct = Holding resp; ok \<longrightarrow> ct_open ct\<rbrakk> \<Longrightarrow>
    conn_step cfg d g (Written i ok)
      (set_conn i (if ok then ct\<lparr>ct_writer := Waiting\<rparr> else stop_writer ct) g)"
| see_closed: "\<lbrakk>gy_conns g i = Some ct; ct_writer ct = Waiting; send_closed i (gy_hub g)\<rbrakk> \<Longrightarrow>
    conn_step cfg d g (SeeClosed i) (set_conn i (stop_writer ct) g)"
| ping: "\<lbrakk>gy_conns g i = Some ct; ct_writer ct = Waiting; ok \<longrightarrow> ct_open ct\<rbrakk> \<Longrightarrow>
    conn_step cfg d g (Ping i ok) (set_conn i (if ok then ct else stop_writer ct) g)"
| hub_broadcasts: "ws_exec cfg (HubTakes it) (gy_hub g) = Return (Some h) \<Longrightarrow>
    conn_step cfg d g (HubBroadcasts it) (set_hub h g)"
| forwarded: "ws_exec cfg (Announce t resp) (gy_hub g) = Return (Some h) \<Longrightarrow>
    conn_step cfg d g (Forwarded t resp) (set_hub h g)"

inductive conn_run ::
  "ws_config \<Rightarrow> ('c, 's) ws_deps \<Rightarrow> 's gateway \<Rightarrow> 'c conn_label list \<Rightarrow> 's gateway \<Rightarrow> bool"
  for cfg d where
  nil: "conn_run cfg d g [] g"
| snoc: "\<lbrakk>conn_run cfg d g ls g'; conn_step cfg d g' l g''\<rbrakk> \<Longrightarrow> conn_run cfg d g (ls @ [l]) g''"

lemma conn_run_append:
  "\<lbrakk>conn_run cfg d g' ls' g''; conn_run cfg d g ls g'\<rbrakk> \<Longrightarrow> conn_run cfg d g (ls @ ls') g''"
proof (induction rule: conn_run.induct)
  case (snoc a ls' b l c)
  from conn_run.snoc [OF snoc.IH [OF snoc.prems] snoc.hyps(2)] show ?case by simp
qed simp

lemma conn_run_one: "conn_step cfg d g l g' \<Longrightarrow> conn_run cfg d g [l] g'"
  using conn_run.snoc [OF conn_run.nil] by fastforce

subsection \<open>What a handler does to the hub\<close>

text \<open>
  A handler changes subscriptions of its own client only: channels and registrations stay.
\<close>

definition same_channels :: "hub_state \<Rightarrow> hub_state \<Rightarrow> bool" where
  "same_channels h h' \<longleftrightarrow>
     hs_registered h' = hs_registered h \<and> hs_broadcast h' = hs_broadcast h
     \<and> (\<forall>j. map_option wc_send (hs_clients h' j) = map_option wc_send (hs_clients h j))"

lemma same_channels_refl [simp]: "same_channels h h"
  by (simp add: same_channels_def)

lemma same_channels_updates:
  assumes "\<And>c t. wc_send (f t c) = wc_send c"
  shows "same_channels h (fold (\<lambda>t. update_client i (f t)) ts h)"
proof -
  have "wc_send (fold f ts c) = wc_send c" for c
    by (induction ts arbitrary: c) (simp_all add: assms)
  then show ?thesis
    by (simp add: same_channels_def ws_simps map_option.compositionality comp_def)
qed

lemma hub_respond [simp]: "ww_hub (fst (ws_respond msg f w r)) = ww_hub w"
  by (simp add: ws_respond_def)

lemma ws_Route_hub:
  fixes d :: "('c, 's) ws_deps"
  shows "same_channels (ww_hub w) (ww_hub (fst (ws_Route d c i msg w)))
    \<and> (\<forall>j. j \<noteq> i \<longrightarrow> hs_clients (ww_hub (fst (ws_Route d c i msg w))) j = hs_clients (ww_hub w) j)"
proof (cases "map_of (NewActionRouter :: (string \<times> ('c, 's) ws_action) list) (wm_Action msg)")
  case None
  then show ?thesis by (simp add: ws_Route_def)
next
  case (Some h)
  then have "ws_Route d c i msg w = h d c i msg w" by (simp add: ws_Route_def)
  with Some show ?thesis
    by (elim route_cases)
      (auto simp: ws_action_defs ws_subscribe_action_def ws_unsubscribe_action_def Let_def ws_simps
        ws_subscribe_def ws_unsubscribe_def
        intro!: same_channels_updates split: option.split)
qed

lemma ws_read_hub:
  assumes "ws_read d c i frame w = Some (w', r)"
  shows "same_channels (ww_hub w) (ww_hub w')"
    and "j \<noteq> i \<Longrightarrow> hs_clients (ww_hub w') j = hs_clients (ww_hub w) j"
proof -
  obtain msg where "ws_Route d c i msg w = (w', r)" using assms by (auto simp: ws_read_def)
  with ws_Route_hub [of w d c i msg] show "same_channels (ww_hub w) (ww_hub w')"
    and "j \<noteq> i \<Longrightarrow> hs_clients (ww_hub w') j = hs_clients (ww_hub w) j"
    by simp_all
qed

lemma same_channels_client:
  assumes "same_channels h h'" and "hs_clients h' j = Some c'"
  shows "\<exists>c. hs_clients h j = Some c \<and> wc_send c = wc_send c'"
proof -
  have "map_option wc_send (hs_clients h' j) = map_option wc_send (hs_clients h j)"
    using assms(1) by (simp add: same_channels_def)
  with assms(2) show ?thesis by (cases "hs_clients h j") simp_all
qed

lemma same_channels_sym: "same_channels h h' \<Longrightarrow> same_channels h' h"
  by (simp add: same_channels_def)

lemma same_channels_ok:
  assumes same: "same_channels h h'" and ok: "hub_ok cfg h"
  shows "hub_ok cfg h'"
proof -
  have reg: "hs_registered h' = hs_registered h" "hs_broadcast h' = hs_broadcast h"
    using same by (simp_all add: same_channels_def)
  have "\<exists>c. hs_clients h' i = Some c \<and> \<not> ch_closed (wc_send c)" if "i \<in> hs_registered h" for i
    using hub_okD(1) [OF ok that] same_channels_client [OF same_channels_sym [OF same]] by fastforce
  moreover have "chan_ok (wcfg_SendBufferSize cfg) (wc_send c)" if "hs_clients h' i = Some c" for i c
    using hub_okD(2) [OF ok] same_channels_client [OF same that] by fastforce
  ultimately show ?thesis using ok reg by (simp add: hub_ok_def)
qed

subsection \<open>Registrations and channels\<close>

text \<open>A client is registered with the hub exactly as long as its channel is open.\<close>

definition hub_sync :: "hub_state \<Rightarrow> bool" where
  "hub_sync h \<longleftrightarrow>
     (\<forall>i c. hs_clients h i = Some c \<longrightarrow> (ch_closed (wc_send c) \<longleftrightarrow> i \<notin> hs_registered h))"

lemma hub_syncD: "\<lbrakk>hub_sync h; hs_clients h i = Some c\<rbrakk> \<Longrightarrow> ch_closed (wc_send c) \<longleftrightarrow> i \<notin> hs_registered h"
  by (simp add: hub_sync_def)

lemma same_channels_sync: "\<lbrakk>same_channels h h'; hub_sync h\<rbrakk> \<Longrightarrow> hub_sync h'"
  using same_channels_client [of h h'] by (fastforce simp: hub_sync_def same_channels_def)

lemma hub_sync_drop:
  "hub_sync h \<Longrightarrow> hub_sync (set_client i (c\<lparr>wc_send := (wc_send c)\<lparr>ch_closed := True\<rparr>\<rparr>)
     (h\<lparr>hs_registered := hs_registered h - {i}\<rparr>))"
  by (auto simp: hub_sync_def ws_simps)

lemma hub_sync_set_client:
  "\<lbrakk>hub_sync h; ch_closed (wc_send c) \<longleftrightarrow> i \<notin> hs_registered h\<rbrakk> \<Longrightarrow> hub_sync (set_client i c h)"
  by (auto simp: hub_sync_def ws_simps)

lemma received_closed:
  "ch_closed (wc_send (received msg c)) \<longleftrightarrow> ch_closed (wc_send c) \<or> overflows msg c"
  by (simp add: received_def overflows_def)

lemma hub_sync_broadcast:
  "hub_sync h \<Longrightarrow> hub_sync (broadcast_result msg (hs_registered h) h)"
  by (auto simp: hub_sync_def ws_simps received_closed split: if_splits)

text \<open>
  What every step of the hub and of a client's channel keeps: the invariant of \<open>Ws_Hub\<close>, the
  agreement above, and which clients exist; no step but \<open>register\<close> adds a registration.
\<close>

definition hub_moves :: "ws_config \<Rightarrow> hub_state \<Rightarrow> hub_state \<Rightarrow> bool" where
  "hub_moves cfg h h' \<longleftrightarrow>
     (hub_ok cfg h \<and> hub_sync h \<longrightarrow>
        hub_ok cfg h' \<and> hub_sync h' \<and> hs_registered h' \<subseteq> hs_registered h
        \<and> (\<forall>j. hs_clients h' j = None \<longleftrightarrow> hs_clients h j = None))"

lemma moves_read: "same_channels h h' \<Longrightarrow> hub_moves cfg h h'"
  using same_channels_ok [of h h' cfg] same_channels_sync [of h h']
  by (auto simp: hub_moves_def same_channels_def) (metis map_option_is_None)+

lemma moves_unregister:
  assumes "hub_unregister i h = Return h'"
  shows "hub_moves cfg h h'" and "hub_ok cfg h \<Longrightarrow> i \<notin> hs_registered h'"
proof -
  have "hub_ok cfg h' \<and> hub_sync h' \<and> hs_registered h' = hs_registered h - {i}
      \<and> (\<forall>j. hs_clients h' j = None \<longleftrightarrow> hs_clients h j = None)"
    if ok: "hub_ok cfg h" and sync: "hub_sync h" and i: "i \<in> hs_registered h"
    using hub_drop_ok [OF ok i] hub_sync_drop [OF sync] assms i
    by (auto simp: hub_unregister_def ws_simps split: if_splits)
  then show "hub_moves cfg h h'"
    using assms by (cases "i \<in> hs_registered h") (auto simp: hub_moves_def hub_unregister_def)
  show "i \<notin> hs_registered h'" if ok: "hub_ok cfg h"
    using hub_drop_ok [OF ok, of i] assms
    by (cases "i \<in> hs_registered h") (auto simp: hub_unregister_def ws_simps)
qed

lemma moves_send:
  assumes "client_send i resp h = Return (Some h')"
  shows "hub_moves cfg h h'"
proof (cases "hs_clients h i")
  case (Some c)
  then have h': "h' = set_client i (c\<lparr>wc_send := (wc_send c)\<lparr>ch_buf := ch_buf (wc_send c) @ [resp]\<rparr>\<rparr>) h"
    and "\<not> ch_closed (wc_send c)"
    using assms by (auto simp: client_send_def try_send_def split: if_splits)
  then show ?thesis
    using client_send_ok [OF _ assms] Some hub_syncD [of h i c]
    by (auto simp: hub_moves_def ws_simps intro!: hub_sync_set_client)
qed (use assms in \<open>simp add: client_send_def hub_moves_def\<close>)

lemma moves_take:
  assumes "take_response i h = Some (h', r)"
  shows "hub_moves cfg h h'"
proof -
  obtain c where c: "hs_clients h i = Some c" "ch_buf (wc_send c) \<noteq> []"
    and h': "h' = set_client i (c\<lparr>wc_send := (wc_send c)\<lparr>ch_buf := tl (ch_buf (wc_send c))\<rparr>\<rparr>) h"
    using assms by (auto simp: take_response_def split: option.splits list.splits)
  then have eq: "h' = fst (write_step i h)"
    by (auto simp: write_step_def neq_Nil_conv)
  have ok: "hub_ok cfg h \<Longrightarrow> hub_ok cfg h'" unfolding eq by (rule write_step_ok)
  show ?thesis
    using ok hub_syncD [of h i c] c unfolding h'
    by (auto simp: hub_moves_def ws_simps intro!: hub_sync_set_client)
qed

lemma moves_broadcast:
  assumes "ws_exec cfg (HubTakes it) h = Return (Some h')"
  shows "hub_moves cfg h h'"
proof -
  obtain msg msgs where it: "hub_iteration_ok it h" and buf: "ch_buf (hs_broadcast h) = msg # msgs"
    and b: "hub_broadcast msg it (h\<lparr>hs_broadcast := (hs_broadcast h)\<lparr>ch_buf := msgs\<rparr>\<rparr>) = Return h'"
    using assms by (auto simp: map_outcome_Return split: if_splits list.splits)
  let ?h = "h\<lparr>hs_broadcast := (hs_broadcast h)\<lparr>ch_buf := msgs\<rparr>\<rparr>"
  have "hub_ok cfg h' \<and> hub_sync h' \<and> hs_registered h' \<subseteq> hs_registered h
      \<and> (\<forall>j. hs_clients h' j = None \<longleftrightarrow> hs_clients h j = None)"
    if ok: "hub_ok cfg h" and sync: "hub_sync h"
  proof -
    have ok': "hub_ok cfg ?h" using ok buf by (simp add: hub_ok_def ws_simps)
    have sync': "hub_sync ?h" using sync by (simp add: hub_sync_def)
    have "h' = broadcast_result msg (hs_registered ?h) ?h"
      using hub_broadcast_result [OF ok', of it msg] it b by (simp add: hub_iteration_ok_def)
    then show ?thesis
      using hub_take_ok [OF ok it buf] b hub_sync_broadcast [OF sync', of msg]
      by (auto simp: ws_simps)
  qed
  then show ?thesis by (simp add: hub_moves_def)
qed

lemma moves_announce:
  assumes "ws_exec cfg (Announce t resp) h = Return (Some h')"
  shows "hub_moves cfg h h'"
proof -
  have b: "Broadcast t resp h = Return h'" using assms by (auto simp: map_outcome_Return)
  then have "hs_clients h' = hs_clients h" "hs_registered h' = hs_registered h"
    by (auto simp: Broadcast_def try_send_def split: if_splits)
  moreover have "hub_ok cfg h \<Longrightarrow> hub_ok cfg h'" using Broadcast_ok [of cfg h t resp] b by auto
  ultimately show ?thesis by (simp add: hub_moves_def hub_sync_def)
qed

subsection \<open>The invariant of the connections\<close>

text \<open>
  Clients exist for exactly the connections; a read pump that has ended has unregistered its
  client.
\<close>

definition gateway_ok :: "ws_config \<Rightarrow> 's gateway \<Rightarrow> bool" where
  "gateway_ok cfg g \<longleftrightarrow>
     hub_ok cfg (gy_hub g) \<and> hub_sync (gy_hub g)
     \<and> (\<forall>i. hs_clients (gy_hub g) i = None \<longleftrightarrow> gy_conns g i = None)
     \<and> (\<forall>i ct. gy_conns g i = Some ct \<and> ct_reader ct = Gone \<longrightarrow> i \<notin> hs_registered (gy_hub g))"

lemma gateway_ok_start: "gateway_ok cfg (start_gateway s)"
  by (simp add: gateway_ok_def start_gateway_def hub_ok_NewHub hub_sync_def)
    (simp add: NewHub_def)

text \<open>
  A step that moves the hub as above and leaves every ended read pump ended, or was one of the
  client that it takes out of the hub.
\<close>

lemma gateway_ok_moves:
  assumes ok: "gateway_ok cfg g" and h: "hub_moves cfg (gy_hub g) (gy_hub g')"
    and conns: "\<And>j. gy_conns g' j = None \<longleftrightarrow> gy_conns g j = None"
    and gone: "\<And>j ct. \<lbrakk>gy_conns g' j = Some ct; ct_reader ct = Gone\<rbrakk> \<Longrightarrow>
      (\<exists>ct'. gy_conns g j = Some ct' \<and> ct_reader ct' = Gone) \<or> j \<notin> hs_registered (gy_hub g')"
  shows "gateway_ok cfg g'"
  using ok h conns gone unfolding gateway_ok_def hub_moves_def by (meson subsetD)

lemma hub_moves_refl [simp]: "hub_moves cfg h h"
  by (simp add: hub_moves_def)

lemma ServeHTTP_ok:
  assumes ok: "gateway_ok cfg g" and new: "gy_conns g i = None"
  shows "gateway_ok cfg (ServeHTTP cfg i g)"
proof -
  let ?h = "set_client i (newClient cfg) (gy_hub g)"
  have none: "hs_clients (gy_hub g) i = None" using ok new by (simp add: gateway_ok_def)
  then have "i \<notin> hs_registered (gy_hub g)"
    using ok hub_okD(1) [of cfg "gy_hub g" i] by (auto simp: gateway_ok_def)
  have fresh: "\<not> ch_closed (wc_send (newClient cfg))" by (simp add: newClient_def make_chan_def)
  have "ws_step cfg (gy_hub g) (Connect i) ?h" using none by (simp add: ws_step_simps)
  then have "hub_ok cfg ?h" using ok ws_step_ok by (auto simp: gateway_ok_def)
  moreover have "ws_step cfg ?h (Register i) (hub_register i ?h)"
    using fresh by (simp add: ws_step_simps ws_simps)
  ultimately have "hub_ok cfg (hub_register i ?h)" by (blast intro: ws_step_ok)
  moreover have "hub_sync (hub_register i ?h)"
    using ok fresh by (auto simp: hub_sync_def hub_register_def ws_simps gateway_ok_def)
  ultimately show ?thesis
    using ok by (auto simp: gateway_ok_def ServeHTTP_def ws_simps hub_register_def split: if_splits)
qed

lemma conn_step_ok: "\<lbrakk>conn_step cfg d g l g'; gateway_ok cfg g\<rbrakk> \<Longrightarrow> gateway_ok cfg g'"
proof (induction rule: conn_step.induct)
  case (upgrade g i)
  then show ?case by (intro ServeHTTP_ok)
next
  case (read_frame g i ct c frame w' resp)
  then show ?case using ws_read_hub(1) [OF read_frame.hyps(4)]
    by (intro gateway_ok_moves [OF read_frame.prems]) (auto simp: ws_simps moves_read split: if_splits)
next
  case (read_panics g i ct c frame w' m)
  then show ?case using ws_read_hub(1) [OF read_panics.hyps(4)]
    by (intro gateway_ok_moves [OF read_panics.prems]) (auto simp: ws_simps moves_read split: if_splits)
next
  case (send_done g i ct resp h)
  then show ?case using moves_send [OF send_done.hyps(3)]
    by (intro gateway_ok_moves [OF send_done.prems]) (auto simp: ws_simps split: if_splits)
next
  case (leave g i ct h)
  then show ?case using moves_unregister [OF leave.hyps(3)]
    by (intro gateway_ok_moves [OF leave.prems]) (auto simp: ws_simps gateway_ok_def split: if_splits)
next
  case (take_resp g i ct h resp)
  then show ?case using moves_take [OF take_resp.hyps(3)]
    by (intro gateway_ok_moves [OF take_resp.prems]) (auto simp: ws_simps split: if_splits)
next
  case (hub_broadcasts it g h)
  then show ?case using moves_broadcast [OF hub_broadcasts.hyps]
    by (intro gateway_ok_moves [OF hub_broadcasts.prems]) (auto simp: ws_simps)
next
  case (forwarded t resp g h)
  then show ?case using moves_announce [OF forwarded.hyps]
    by (intro gateway_ok_moves [OF forwarded.prems]) (auto simp: ws_simps)
qed (rule gateway_ok_moves; auto simp: ws_simps stop_writer_def split: if_splits)+

lemma conn_run_ok: "\<lbrakk>conn_run cfg d g ls g'; gateway_ok cfg g\<rbrakk> \<Longrightarrow> gateway_ok cfg g'"
  by (induction rule: conn_run.induct) (auto intro: conn_step_ok)

definition conn_reachable :: "ws_config \<Rightarrow> ('c, 's) ws_deps \<Rightarrow> 's gateway \<Rightarrow> bool" where
  "conn_reachable cfg d g \<longleftrightarrow> (\<exists>s ls. conn_run cfg d (start_gateway s) ls g)"

lemma conn_reachable_ok: "conn_reachable cfg d g \<Longrightarrow> gateway_ok cfg g"
  by (auto simp: conn_reachable_def intro: conn_run_ok gateway_ok_start)

lemma conn_reachable_start [simp]: "conn_reachable cfg d (start_gateway s)"
  using conn_run.nil by (force simp: conn_reachable_def)

lemma conn_reachable_step:
  "\<lbrakk>conn_reachable cfg d g; conn_step cfg d g l g'\<rbrakk> \<Longrightarrow> conn_reachable cfg d g'"
  by (auto simp: conn_reachable_def intro: conn_run.snoc)

subsection \<open>The end of a write pump\<close>

text \<open>
  The write pump's own steps, pings aside: once the hub has closed the channel, each of them
  works off a response or ends the pump.
\<close>

fun writer_label :: "nat \<Rightarrow> 'c conn_label \<Rightarrow> bool" where
  "writer_label i (Take j) = (j = i)"
| "writer_label i (Written j ok) = (j = i)"
| "writer_label i (SeeClosed j) = (j = i)"
| "writer_label i _ = False"

definition writer_work :: "nat \<Rightarrow> 's gateway \<Rightarrow> nat" where
  "writer_work i g =
     (case hs_clients (gy_hub g) i of None \<Rightarrow> 0 | Some c \<Rightarrow> 2 * length (ch_buf (wc_send c)))
     + (case gy_conns g i of None \<Rightarrow> 0 | Some ct \<Rightarrow>
          (case ct_writer ct of Waiting \<Rightarrow> 1 | Holding r \<Rightarrow> 2 | Stopped \<Rightarrow> 0))"

lemma writer_step_work:
  "\<lbrakk>conn_step cfg d g l g'; writer_label i l\<rbrakk> \<Longrightarrow> writer_work i g' < writer_work i g"
  by (induction rule: conn_step.induct)
    (auto simp: writer_work_def ws_simps take_response_def stop_writer_def
      split: option.splits list.splits writer.splits)

lemma writer_run_work:
  "\<lbrakk>conn_run cfg d g ls g'; list_all (writer_label i) ls\<rbrakk> \<Longrightarrow> length ls + writer_work i g' \<le> writer_work i g"
proof (induction rule: conn_run.induct)
  case (snoc g ls g' l g'')
  then have "writer_work i g'' < writer_work i g'" by (auto intro: writer_step_work)
  with snoc show ?case by simp
qed simp

lemma writer_progress:
  assumes ct: "gy_conns g i = Some ct" "ct_writer ct \<noteq> Stopped"
    and c: "hs_clients (gy_hub g) i = Some c" "ch_closed (wc_send c)"
  shows "\<exists>l g'. writer_label i l \<and> conn_step cfg d g l g'"
proof (cases "ct_writer ct")
  case (Holding resp)
  from conn_step.written [OF ct(1) this, of False cfg d] show ?thesis
    by (metis writer_label.simps(2))
next
  case Waiting
  show ?thesis
  proof (cases "ch_buf (wc_send c)")
    case Nil
    then have "send_closed i (gy_hub g)" using c by (simp add: send_closed_def)
    from conn_step.see_closed [OF ct(1) Waiting this, of cfg d] show ?thesis
      by (metis writer_label.simps(3))
  next
    case (Cons r rs)
    then obtain h where "take_response i (gy_hub g) = Some (h, r)"
      using c by (auto simp: take_response_def)
    from conn_step.take_resp [OF ct(1) Waiting this, of cfg d] show ?thesis
      by (metis writer_label.simps(1))
  qed
qed (use ct(2) in simp)

lemma writer_keeps_closed:
  "\<lbrakk>conn_step cfg d g l g'; writer_label i l; hs_clients (gy_hub g) i = Some c; ch_closed (wc_send c)\<rbrakk>
    \<Longrightarrow> (\<exists>c'. hs_clients (gy_hub g') i = Some c' \<and> ch_closed (wc_send c'))
      \<and> (gy_conns g' i = None \<longleftrightarrow> gy_conns g i = None)"
  by (induction rule: conn_step.induct)
    (auto simp: ws_simps take_response_def split: option.splits list.splits)

lemma writer_run_closed:
  "\<lbrakk>conn_run cfg d g ls g'; list_all (writer_label i) ls; hs_clients (gy_hub g) i = Some c;
    ch_closed (wc_send c)\<rbrakk>
    \<Longrightarrow> (\<exists>c'. hs_clients (gy_hub g') i = Some c' \<and> ch_closed (wc_send c'))
      \<and> (gy_conns g' i = None \<longleftrightarrow> gy_conns g i = None)"
proof (induction rule: conn_run.induct)
  case (snoc g ls g' l g'')
  then show ?case using writer_keeps_closed [OF snoc.hyps(2)] by auto
qed simp

subsection \<open>A client that does not read\<close>

text \<open>
  The read pump waits for room in the buffer, and nobody makes any: the write pump has stopped,
  and the hub does not send to the client since it has no subscriptions.
\<close>

definition blocked :: "nat \<Rightarrow> ws_response \<Rightarrow> 's gateway \<Rightarrow> bool" where
  "blocked i resp g \<longleftrightarrow>
     (\<exists>ct c. gy_conns g i = Some ct \<and> ct_reader ct = Sending resp \<and> ct_writer ct = Stopped
       \<and> hs_clients (gy_hub g) i = Some c \<and> wc_subscriptions c = {}
       \<and> \<not> ch_closed (wc_send c) \<and> length (ch_buf (wc_send c)) = ch_cap (wc_send c)
       \<and> i \<in> hs_registered (gy_hub g))"

text \<open>What the others do leaves a blocked client alone.\<close>

lemma blocked_frame:
  assumes "blocked i resp g" and "gy_conns g' i = gy_conns g i"
    and "hs_clients (gy_hub g') i = hs_clients (gy_hub g) i"
    and "i \<in> hs_registered (gy_hub g')"
  shows "blocked i resp g'"
  using assms by (auto simp: blocked_def)

lemma blockedD:
  assumes "blocked i resp g"
  shows "i \<in> hs_registered (gy_hub g)"
    and "\<lbrakk>gy_conns g i = Some ct\<rbrakk> \<Longrightarrow> ct_reader ct = Sending resp \<and> ct_writer ct = Stopped"
    and "client_send i r (gy_hub g) = Return None"
    and "gy_conns g i \<noteq> None"
  using assms by (auto simp: blocked_def client_send_def try_send_simps)

lemma broadcast_unsubscribed:
  assumes ok: "hub_ok cfg h" and ex: "ws_exec cfg (HubTakes it) h = Return (Some h')"
    and c: "hs_clients h i = Some c" "wc_subscriptions c = {}" and i: "i \<in> hs_registered h"
  shows "hs_clients h' i = Some c \<and> i \<in> hs_registered h'"
proof -
  obtain msg msgs where it: "hub_iteration_ok it h" and buf: "ch_buf (hs_broadcast h) = msg # msgs"
    and b: "hub_broadcast msg it (h\<lparr>hs_broadcast := (hs_broadcast h)\<lparr>ch_buf := msgs\<rparr>\<rparr>) = Return h'"
    using ex by (auto simp: map_outcome_Return split: if_splits list.splits)
  let ?h = "h\<lparr>hs_broadcast := (hs_broadcast h)\<lparr>ch_buf := msgs\<rparr>\<rparr>"
  have ok': "hub_ok cfg ?h" using ok buf by (simp add: hub_ok_def ws_simps)
  have "h' = broadcast_result msg (hs_registered ?h) ?h"
    using hub_broadcast_result [OF ok', of it msg] it b by (simp add: hub_iteration_ok_def)
  then show ?thesis
    using c i by (simp add: ws_simps received_def overflows_def isSubscribed_def)
qed

lemma hub_drop_others:
  "hub_unregister i h = Return h' \<Longrightarrow> j \<noteq> i \<Longrightarrow>
     hs_clients h' j = hs_clients h j \<and> (j \<in> hs_registered h' \<longleftrightarrow> j \<in> hs_registered h)"
  by (auto simp: hub_unregister_def hub_drop_def ws_simps split: if_splits option.splits outcome.splits)

lemma client_send_others:
  "client_send i resp h = Return (Some h') \<Longrightarrow>
     (j \<noteq> i \<longrightarrow> hs_clients h' j = hs_clients h j) \<and> hs_registered h' = hs_registered h"
  by (auto simp: client_send_def ws_simps split: option.splits outcome.splits)

lemma take_others:
  "take_response i h = Some (h', r) \<Longrightarrow>
     (j \<noteq> i \<longrightarrow> hs_clients h' j = hs_clients h j) \<and> hs_registered h' = hs_registered h"
  by (auto simp: take_response_def ws_simps split: option.splits list.splits)

lemma conn_step_blocked:
  assumes "conn_step cfg d g l g'" and "gateway_ok cfg g" and b: "blocked i resp g"
  shows "blocked i resp g'"
  using assms(1,2) b
proof (induction rule: conn_step.induct)
  case (upgrade g j)
  then have "j \<noteq> i" using blockedD(4) [OF upgrade.prems(2)] upgrade.hyps by auto
  then show ?case
    using upgrade blockedD(1) [OF upgrade.prems(2)]
    by (intro blocked_frame [OF upgrade.prems(2)])
      (auto simp: ServeHTTP_def ws_simps hub_register_def)
next
  case (read_frame g j ct c frame w' r)
  then have "j \<noteq> i" using blockedD(2) by fastforce
  then show ?case
    using ws_read_hub [OF read_frame.hyps(4)] blockedD(1) [OF read_frame.prems(2)]
    by (intro blocked_frame [OF read_frame.prems(2)]) (auto simp: ws_simps same_channels_def)
next
  case (read_panics g j ct c frame w' m)
  then have "j \<noteq> i" using blockedD(2) by fastforce
  then show ?case
    using ws_read_hub [OF read_panics.hyps(4)] blockedD(1) [OF read_panics.prems(2)]
    by (intro blocked_frame [OF read_panics.prems(2)]) (auto simp: ws_simps same_channels_def)
next
  case (send_done g j ct r h)
  then have "j \<noteq> i" using blockedD(3) by fastforce
  then show ?case
    using client_send_others [OF send_done.hyps(3)] blockedD(1) [OF send_done.prems(2)]
    by (intro blocked_frame [OF send_done.prems(2)]) (auto simp: ws_simps)
next
  case (send_panics g j ct r m)
  then have "j \<noteq> i" using blockedD(3) by fastforce
  then show ?case
    using blockedD(1) [OF send_panics.prems(2)]
    by (intro blocked_frame [OF send_panics.prems(2)]) (auto simp: ws_simps)
next
  case (leave g j ct h)
  then have "j \<noteq> i" using blockedD(2) by fastforce
  then show ?case
    using hub_drop_others [OF leave.hyps(3)] blockedD(1) [OF leave.prems(2)]
    by (intro blocked_frame [OF leave.prems(2)]) (auto simp: ws_simps)
next
  case (take_resp g j ct h r)
  then have "j \<noteq> i" using blockedD(2) by fastforce
  then show ?case
    using take_others [OF take_resp.hyps(3)] blockedD(1) [OF take_resp.prems(2)]
    by (intro blocked_frame [OF take_resp.prems(2)]) (auto simp: ws_simps)
next
  case (hub_broadcasts it g h)
  then show ?case
    using broadcast_unsubscribed [OF _ hub_broadcasts.hyps, of i]
    by (auto simp: blocked_def gateway_ok_def ws_simps)
next
  case (forwarded t r g h)
  then have "hs_clients h = hs_clients (gy_hub g)" "hs_registered h = hs_registered (gy_hub g)"
    by (auto simp: map_outcome_Return Broadcast_def try_send_def split: if_splits)
  then show ?case
    using blockedD(1) [OF forwarded.prems(2)]
    by (intro blocked_frame [OF forwarded.prems(2)]) (simp_all add: ws_simps)
qed (auto simp: blocked_def ws_simps)

lemma conn_run_blocked:
  "\<lbrakk>conn_run cfg d g ls g'; gateway_ok cfg g; blocked i resp g\<rbrakk> \<Longrightarrow> blocked i resp g'"
proof (induction rule: conn_run.induct)
  case (snoc g ls g' l g'')
  then show ?case using conn_step_blocked [OF snoc.hyps(2)] conn_run_ok [OF snoc.hyps(1)] by blast
qed simp

text \<open>
  How a client gets there: the peer sends messages and reads nothing. The write pump holds the
  first response, the channel fills up behind it.
\<close>

definition bad_response :: ws_response where
  "bad_response = ws_errorResponse zero_ws_message ''UNKNOWN_ACTION'' (''unknown action: '' @ '''')"

definition filled :: "reader \<Rightarrow> writer \<Rightarrow> nat \<Rightarrow> 's gateway \<Rightarrow> bool" where
  "filled r w k g \<longleftrightarrow>
     gy_conns g 0 = Some \<lparr>ct_reader = r, ct_writer = w, ct_open = True\<rparr>
     \<and> (\<exists>c. hs_clients (gy_hub g) 0 = Some c \<and> wc_subscriptions c = {}
       \<and> \<not> ch_closed (wc_send c) \<and> ch_cap (wc_send c) = sendBufferSize
       \<and> length (ch_buf (wc_send c)) = k \<and> 0 \<in> hs_registered (gy_hub g))"

lemma read_empty_frame:
  fixes d :: "('c, 's) ws_deps"
  shows "ws_read d c i (Some (JObj [])) w = Some (w, Return bad_response)"
proof -
  have "unmarshal dec_ws_message zero_ws_message (Some (JObj [])) = Some zero_ws_message"
    by code_simp
  then show ?thesis
    by (simp add: ws_read_def zero_ws_message_def ws_Route_def NewActionRouter_def action_defs
        bad_response_def)
qed

lemma frame_read:
  assumes "conn_reachable cfg d g" and "filled Reading w k g"
  shows "\<exists>g'. conn_reachable cfg d g' \<and> filled (Sending bad_response) w k g'"
proof -
  let ?ct = "\<lparr>ct_reader = Reading, ct_writer = w, ct_open = True\<rparr>"
  have ct: "gy_conns g 0 = Some ?ct" using assms(2) by (simp add: filled_def)
  have "conn_reachable cfg d (set_conn 0 (?ct\<lparr>ct_reader := Sending bad_response\<rparr>) g)"
    using conn_reachable_step [OF assms(1) conn_step.read_frame [OF ct _ _ read_empty_frame]]
    by simp
  moreover have "filled (Sending bad_response) w k
      (set_conn 0 (?ct\<lparr>ct_reader := Sending bad_response\<rparr>) g)"
    using assms(2) by (simp add: filled_def ws_simps)
  ultimately show ?thesis by blast
qed

lemma response_queued:
  assumes r: "conn_reachable cfg d g" and f: "filled (Sending bad_response) w k g"
    and k: "k < sendBufferSize"
  shows "\<exists>g'. conn_reachable cfg d g' \<and> filled Reading w (Suc k) g'"
proof -
  let ?ct = "\<lparr>ct_reader = Sending bad_response, ct_writer = w, ct_open = True\<rparr>"
  obtain c where ct: "gy_conns g 0 = Some ?ct" and c: "hs_clients (gy_hub g) 0 = Some c"
      "wc_subscriptions c = {}" "\<not> ch_closed (wc_send c)" "ch_cap (wc_send c) = sendBufferSize"
      "length (ch_buf (wc_send c)) = k" "0 \<in> hs_registered (gy_hub g)"
    using f by (auto simp: filled_def)
  let ?c = "c\<lparr>wc_send := (wc_send c)\<lparr>ch_buf := ch_buf (wc_send c) @ [bad_response]\<rparr>\<rparr>"
  have s: "client_send 0 bad_response (gy_hub g) = Return (Some (set_client 0 ?c (gy_hub g)))"
    using c k by (simp add: client_send_def try_send_simps)
  let ?g = "set_conn 0 (?ct\<lparr>ct_reader := Reading\<rparr>) (set_hub (set_client 0 ?c (gy_hub g)) g)"
  have "conn_reachable cfg d ?g"
    using conn_step.send_done [OF ct _ s, of cfg d] r by (simp add: conn_reachable_step)
  moreover have "filled Reading w (Suc k) ?g" using c by (simp add: filled_def ws_simps)
  ultimately show ?thesis by blast
qed

lemma response_taken:
  assumes r: "conn_reachable cfg d g" and f: "filled Reading Waiting (Suc k) g"
  shows "\<exists>g' resp. conn_reachable cfg d g' \<and> filled Reading (Holding resp) k g'"
proof -
  let ?ct = "\<lparr>ct_reader = Reading, ct_writer = Waiting, ct_open = True\<rparr>"
  obtain c where ct: "gy_conns g 0 = Some ?ct" and c: "hs_clients (gy_hub g) 0 = Some c"
      "wc_subscriptions c = {}" "\<not> ch_closed (wc_send c)" "ch_cap (wc_send c) = sendBufferSize"
      "length (ch_buf (wc_send c)) = Suc k" "0 \<in> hs_registered (gy_hub g)"
    using f by (auto simp: filled_def)
  then obtain x xs where buf: "ch_buf (wc_send c) = x # xs" by (cases "ch_buf (wc_send c)") simp_all
  let ?h = "set_client 0 (c\<lparr>wc_send := (wc_send c)\<lparr>ch_buf := xs\<rparr>\<rparr>) (gy_hub g)"
  have t: "take_response 0 (gy_hub g) = Some (?h, x)"
    using c buf by (simp add: take_response_def)
  let ?g = "set_conn 0 (?ct\<lparr>ct_writer := Holding x\<rparr>) (set_hub ?h g)"
  have "conn_reachable cfg d ?g"
    using conn_step.take_resp [OF ct _ t, of cfg d] r by (simp add: conn_reachable_step)
  moreover have "filled Reading (Holding x) k ?g" using c buf by (simp add: filled_def ws_simps)
  ultimately show ?thesis by blast
qed

lemma client_connected:
  fixes d :: "('c, 's) ws_deps"
  shows "\<exists>g. conn_reachable ws_DefaultConfig d g \<and> filled Reading Waiting 0 g"
proof -
  let ?g = "ServeHTTP ws_DefaultConfig 0 (start_gateway s) :: 's gateway"
  let ?ct = "\<lparr>ct_reader = Starting, ct_writer = Waiting, ct_open = True\<rparr>"
  have "conn_reachable ws_DefaultConfig d ?g"
    by (rule conn_reachable_step [OF conn_reachable_start])
      (rule conn_step.upgrade, simp add: start_gateway_def)
  moreover have "gy_conns ?g 0 = Some ?ct" by (simp add: ServeHTTP_def ws_simps)
  ultimately have "conn_reachable ws_DefaultConfig d (set_conn 0 (?ct\<lparr>ct_reader := Reading\<rparr>) ?g)"
    using conn_step.set_deadline [of ?g 0 ?ct True ws_DefaultConfig d]
    by (simp add: conn_reachable_step)
  moreover have "filled Reading Waiting 0 (set_conn 0 (?ct\<lparr>ct_reader := Reading\<rparr>) ?g)"
    by (simp add: filled_def ServeHTTP_def ws_simps hub_register_def newClient_def make_chan_def
        ws_DefaultConfig_def)
  ultimately show ?thesis by blast
qed

lemma channel_filled:
  fixes d :: "('c, 's) ws_deps"
  assumes "k \<le> sendBufferSize"
  shows "\<exists>g resp. conn_reachable ws_DefaultConfig d g \<and> filled Reading (Holding resp) k g"
  using assms
proof (induction k)
  case 0
  have "0 < sendBufferSize" by (simp add: sendBufferSize_def)
  then show ?case
    using client_connected [of d] frame_read response_queued response_taken by (metis One_nat_def)
next
  case (Suc k)
  then show ?case using frame_read response_queued by (metis Suc_le_lessD Suc_leD)
qed

lemma blocked_reachable:
  fixes d :: "('c, 's) ws_deps"
  shows "\<exists>g. conn_reachable ws_DefaultConfig d g \<and> blocked 0 bad_response g"
proof -
  obtain g resp where r: "conn_reachable ws_DefaultConfig d g"
    and f: "filled (Sending bad_response) (Holding resp) sendBufferSize g"
    using channel_filled [of sendBufferSize d] frame_read by (metis order_refl)
  let ?ct = "\<lparr>ct_reader = Sending bad_response, ct_writer = Holding resp, ct_open = True\<rparr>"
  have ct: "gy_conns g 0 = Some ?ct" using f by (simp add: filled_def)
  have "conn_reachable ws_DefaultConfig d (set_conn 0 (stop_writer ?ct) g)"
    using conn_step.written [OF ct, of resp False ws_DefaultConfig d] r
    by (simp add: conn_reachable_step)
  moreover have "blocked 0 bad_response (set_conn 0 (stop_writer ?ct) g)"
    using f by (auto simp: filled_def blocked_def ws_simps stop_writer_def)
  ultimately show ?thesis by blast
qed

subsection \<open>Properties\<close>

text \<open>
  C29. In every run of the gateway, a connection whose read pump has ended is out of the hub: it
  gets no more events, its channel is closed, and its write pump has either stopped or has a
  step to make on the way to its end.
\<close>

theorem finished_reader_is_unregistered:
  assumes "conn_reachable cfg d g" and "gy_conns g i = Some ct" and "ct_reader ct = Gone"
  shows "i \<notin> hs_registered (gy_hub g)
    \<and> (\<exists>c. hs_clients (gy_hub g) i = Some c \<and> ch_closed (wc_send c))
    \<and> (ct_writer ct = Stopped \<or> (\<exists>l g'. writer_label i l \<and> conn_step cfg d g l g'))"
proof -
  have ok: "gateway_ok cfg g" using assms(1) by (rule conn_reachable_ok)
  with assms(2,3) have out: "i \<notin> hs_registered (gy_hub g)" by (simp add: gateway_ok_def)
  obtain c where c: "hs_clients (gy_hub g) i = Some c"
    using ok assms(2) by (cases "hs_clients (gy_hub g) i") (auto simp: gateway_ok_def)
  then have "ch_closed (wc_send c)" using ok out hub_syncD by (auto simp: gateway_ok_def)
  with out c writer_progress [OF assms(2) _ c] show ?thesis by blast
qed

theorem finished_reader_is_unregistered_witness:
  "\<exists>g. conn_reachable ws_DefaultConfig plain_ws g \<and> gy_conns g 0 \<noteq> None
    \<and> 0 \<notin> hs_registered (gy_hub g)"
proof -
  obtain g0 where r0: "conn_reachable ws_DefaultConfig plain_ws g0"
    and f: "filled Reading Waiting 0 g0"
    using client_connected [of plain_ws] by blast
  let ?ct = "\<lparr>ct_reader = Reading, ct_writer = Waiting, ct_open = True\<rparr>"
  let ?g1 = "set_conn 0 (?ct\<lparr>ct_reader := Leaving\<rparr>) g0"
  have ct: "gy_conns g0 0 = Some ?ct" and reg: "0 \<in> hs_registered (gy_hub g0)"
    using f by (auto simp: filled_def)
  have r1: "conn_reachable ws_DefaultConfig plain_ws ?g1"
    using conn_step.read_fails [OF ct, of ws_DefaultConfig plain_ws] r0
    by (simp add: conn_reachable_step)
  have ok: "hub_ok ws_DefaultConfig (gy_hub g0)"
    using conn_reachable_ok [OF r0] by (simp add: gateway_ok_def)
  obtain h where "hub_unregister 0 (gy_hub ?g1) = Return h"
    using hub_drop_ok [OF ok reg] reg by (auto simp: hub_unregister_def ws_simps)
  from conn_step.leave [OF _ _ this, of "?ct\<lparr>ct_reader := Leaving\<rparr>" ws_DefaultConfig plain_ws] r1
  have r2: "conn_reachable ws_DefaultConfig plain_ws
      (set_conn 0 (?ct\<lparr>ct_reader := Gone, ct_open := False\<rparr>) (set_hub h ?g1))" (is "conn_reachable _ _ ?g2")
    by (simp add: conn_reachable_step ws_simps)
  have "0 \<notin> hs_registered (gy_hub ?g2)"
    using finished_reader_is_unregistered [OF r2, of 0] by (simp add: ws_simps)
  with r2 show ?thesis by (intro exI [of _ ?g2]) (simp add: ws_simps)
qed

text \<open>
  C30. Once the hub has closed a client's channel its write pump comes to an end: of its steps,
  pings aside, there are at most two for each response still in the buffer and two more, and it
  can be out of steps only when it has stopped.
\<close>

theorem write_pump_ends:
  assumes "gy_conns g i = Some ct" and "hs_clients (gy_hub g) i = Some c"
    and "ch_closed (wc_send c)"
    and "conn_run cfg d g ls g'" and "list_all (writer_label i) ls"
  shows "length ls \<le> 2 * length (ch_buf (wc_send c)) + 2
    \<and> ((\<forall>l g''. writer_label i l \<longrightarrow> \<not> conn_step cfg d g' l g'') \<longrightarrow>
        (\<exists>ct'. gy_conns g' i = Some ct' \<and> ct_writer ct' = Stopped))"
proof -
  have "writer_work i g \<le> 2 * length (ch_buf (wc_send c)) + 2"
    using assms(1,2) by (auto simp: writer_work_def split: writer.split)
  then have bound: "length ls \<le> 2 * length (ch_buf (wc_send c)) + 2"
    using writer_run_work [OF assms(4,5)] by simp
  obtain ct' c' where "gy_conns g' i = Some ct'" "hs_clients (gy_hub g') i = Some c'"
      "ch_closed (wc_send c')"
    using writer_run_closed [OF assms(4,5,2,3)] assms(1) by auto
  with bound writer_progress [of g' i ct' c' cfg d] show ?thesis by blast
qed

theorem write_pump_ends_witness:
  "\<exists>g ls g' ct. conn_run ws_DefaultConfig plain_ws g ls g' \<and> list_all (writer_label 0) ls
    \<and> length ls \<le> 2 \<and> gy_conns g' 0 = Some ct \<and> ct_writer ct = Stopped"
proof -
  let ?c = "\<lparr>wc_send = \<lparr>ch_buf = [], ch_cap = 1, ch_closed = True\<rparr>, wc_subscriptions = {}\<rparr>"
  let ?ct = "\<lparr>ct_reader = Gone, ct_writer = Waiting, ct_open = False\<rparr>"
  obtain g0 where "conn_reachable ws_DefaultConfig plain_ws g0" using client_connected by blast
  define g where "g = set_conn 0 ?ct (set_hub (set_client 0 ?c NewHub) g0)"
  have g: "gy_conns g 0 = Some ?ct" "hs_clients (gy_hub g) 0 = Some ?c"
    by (simp_all add: g_def ws_simps)
  have "send_closed 0 (gy_hub g)" using g by (simp add: send_closed_def)
  from conn_run_one [OF conn_step.see_closed [OF g(1) _ this, of ws_DefaultConfig plain_ws]]
  have run: "conn_run ws_DefaultConfig plain_ws g [SeeClosed 0] (set_conn 0 (stop_writer ?ct) g)"
    by simp
  have "length [SeeClosed 0 :: pg_env conn_label] \<le> 2"
    using write_pump_ends [OF g _ run] by simp
  with run show ?thesis
    by (intro exI [of _ g] exI [of _ "[SeeClosed 0]"] exI [of _ "set_conn 0 (stop_writer ?ct) g"])
      (simp add: ws_simps stop_writer_def)
qed

text \<open>
  C31. A client that sends messages without reading the responses leaves a goroutine behind:
  when the write pump has given up on the connection (its write ran into the deadline) while the
  client's channel is full, the read pump waits for room in that channel for ever, whatever the
  other connections, the hub and the peer do. The connection is never taken out of the hub.
\<close>

theorem unread_responses_block_reader:
  fixes d :: "('c, 's) ws_deps"
  shows "\<exists>g resp. conn_reachable ws_DefaultConfig d g
    \<and> (\<forall>ls g'. conn_run ws_DefaultConfig d g ls g' \<longrightarrow>
         0 \<in> hs_registered (gy_hub g')
         \<and> (\<exists>ct. gy_conns g' 0 = Some ct \<and> ct_reader ct = Sending resp \<and> ct_writer ct = Stopped)
         \<and> client_send 0 resp (gy_hub g') = Return None)"
proof -
  obtain g where r: "conn_reachable ws_DefaultConfig d g" and b: "blocked 0 bad_response g"
    using blocked_reachable [of d] by blast
  have "blocked 0 bad_response g'" if "conn_run ws_DefaultConfig d g ls g'" for ls g'
    using conn_run_blocked [OF that conn_reachable_ok [OF r] b] .
  moreover have "\<exists>ct. gy_conns g' 0 = Some ct \<and> ct_reader ct = Sending bad_response
      \<and> ct_writer ct = Stopped" if "blocked 0 bad_response g'" for g' :: "'s gateway"
    using that by (auto simp: blocked_def)
  ultimately show ?thesis using r blockedD(1,3) by blast
qed

theorem unread_responses_block_reader_witness:
  "\<exists>g resp. conn_reachable ws_DefaultConfig plain_ws g
    \<and> (\<exists>ct. gy_conns g 0 = Some ct \<and> ct_reader ct = Sending resp \<and> ct_writer ct = Stopped)"
  using unread_responses_block_reader [of plain_ws] conn_run.nil by blast

end
