(* ===== verification/Client_Lifecycle.thy ===== *)
theory Client_Lifecycle
  imports Cache_Sync
begin

text \<open>
  The subscriptions of a client and its end (\<open>client.go\<close>: \<open>Subscribe\<close>, \<open>Unsubscribe\<close>,
  \<open>subscribeForCacheSync\<close>, \<open>Close\<close>). The NATS connection is the list of its active
  subscriptions; whether it takes a subscription, gives one up or drains is an argument, the
  error text or \<open>None\<close>.
\<close>

type_synonym subscription = "nat \<times> string"

record connection =
  cn_next :: nat
  cn_active :: "subscription list"

definition conn_add :: "string \<Rightarrow> connection \<Rightarrow> connection \<times> subscription" where
  "conn_add subject cn =
     (cn\<lparr>cn_next := cn_next cn + 1, cn_active := cn_active cn @ [(cn_next cn, subject)]\<rparr>,
      (cn_next cn, subject))"

definition conn_remove :: "subscription \<Rightarrow> connection \<Rightarrow> connection" where
  "conn_remove sub cn = cn\<lparr>cn_active := filter (\<lambda>x. x \<noteq> sub) (cn_active cn)\<rparr>"

subsection \<open>Subscribing\<close>

definition event_subjects :: "string list" where
  "event_subjects = [SubjectUserCreated, SubjectUserUpdated, SubjectUserDeleted]"

text \<open>
  One subscription after the other; an error returns without the subscriptions made so far,
  which stay active on the connection.
\<close>

fun subscribe_subjects ::
  "(string \<Rightarrow> string option) \<Rightarrow> string list \<Rightarrow> subscription list \<Rightarrow> connection
     \<Rightarrow> connection \<times> (string + subscription list)" where
  "subscribe_subjects nc [] subs cn = (cn, Inr subs)"
| "subscribe_subjects nc (s # ss) subs cn =
     (case nc s of
        Some err \<Rightarrow> (cn, Inl (''userclient: failed to subscribe to '' @ s @ '': '' @ err))
      | None \<Rightarrow>
          (case conn_add s cn of (cn', sub) \<Rightarrow> subscribe_subjects nc ss (subs @ [sub]) cn'))"

definition client_Subscribe ::
  "(string \<Rightarrow> string option) \<Rightarrow> connection \<Rightarrow> connection \<times> (string + subscription list)" where
  "client_Subscribe nc cn = subscribe_subjects nc event_subjects [] cn"

text \<open>\<open>Unsubscribe\<close> returns at the first error.\<close>

fun client_Unsubscribe ::
  "(subscription \<Rightarrow> string option) \<Rightarrow> subscription list \<Rightarrow> connection \<Rightarrow> connection \<times> string option" where
  "client_Unsubscribe unsub [] cn = (cn, None)"
| "client_Unsubscribe unsub (sub # subs) cn =
     (case unsub sub of
        Some err \<Rightarrow>
          (cn, Some (''userclient: failed to unsubscribe from '' @ snd sub @ '': '' @ err))
      | None \<Rightarrow> client_Unsubscribe unsub subs (conn_remove sub cn))"

subsection \<open>Start and end of the cache's synchronisation\<close>

text \<open>
  \<open>lc_cacheSub\<close> is nil after a failed subscription; \<open>lc_stopCh\<close> is nil without a cache,
  otherwise whether the channel is closed.
\<close>

record lifecycle =
  lc_cacheSub :: "subscription list option"
  lc_stopCh :: "bool option"

definition subscribeForCacheSync ::
  "(string \<Rightarrow> string option) \<Rightarrow> lifecycle \<Rightarrow> connection \<Rightarrow> lifecycle \<times> connection" where
  "subscribeForCacheSync nc lc cn =
     (case client_Subscribe nc cn of
        (cn', Inl err) \<Rightarrow> (lc, cn')
      | (cn', Inr subs) \<Rightarrow> (lc\<lparr>lc_cacheSub := Some subs\<rparr>, cn'))"

definition start_client ::
  "(string \<Rightarrow> string option) \<Rightarrow> bool \<Rightarrow> connection \<Rightarrow> lifecycle \<times> connection" where
  "start_client nc cacheEnabled cn =
     (if cacheEnabled
      then subscribeForCacheSync nc \<lparr>lc_cacheSub = None, lc_stopCh = Some False\<rparr> cn
      else (\<lparr>lc_cacheSub = None, lc_stopCh = None\<rparr>, cn))"

text \<open>
  \<open>Close\<close>: errors of the subscriptions and of the drain are only logged, a stop channel that
  is closed already panics.
\<close>

definition client_Close ::
  "(subscription \<Rightarrow> string option) \<Rightarrow> lifecycle \<Rightarrow> connection \<Rightarrow> (lifecycle \<times> connection) outcome" where
  "client_Close unsub lc cn =
     (let cn' = (case lc_cacheSub lc of
                   None \<Rightarrow> cn
                 | Some subs \<Rightarrow> fst (client_Unsubscribe unsub subs cn)) in
      case lc_stopCh lc of
        None \<Rightarrow> Return (lc, cn')
      | Some closed \<Rightarrow>
          if closed then Panic ''close of closed channel''
          else Return (lc\<lparr>lc_stopCh := Some True\<rparr>, cn'))"

subsection \<open>Lemmas\<close>

text \<open>Numbers of subscriptions are not used again.\<close>

definition conn_ok :: "connection \<Rightarrow> bool" where
  "conn_ok cn \<longleftrightarrow> (\<forall>x\<in>set (cn_active cn). fst x < cn_next cn)"

lemma conn_ok_ops:
  "conn_ok cn \<Longrightarrow> conn_ok (fst (conn_add s cn))"
  "conn_ok cn \<Longrightarrow> conn_ok (conn_remove sub cn)"
  by (auto simp: conn_ok_def conn_add_def conn_remove_def)

text \<open>The subscriptions made are the active ones that are new.\<close>

fun new_subs :: "nat \<Rightarrow> string list \<Rightarrow> subscription list" where
  "new_subs n [] = []"
| "new_subs n (s # ss) = (n, s) # new_subs (n + 1) ss"

lemma new_subs_fresh: "x \<in> set (new_subs n ss) \<Longrightarrow> n \<le> fst x"
  by (induction ss arbitrary: n) force+

lemma subscribe_subjects_ok:
  "\<forall>s\<in>set ss. nc s = None \<Longrightarrow>
    subscribe_subjects nc ss subs cn =
      (cn\<lparr>cn_next := cn_next cn + length ss, cn_active := cn_active cn @ new_subs (cn_next cn) ss\<rparr>,
       Inr (subs @ new_subs (cn_next cn) ss))"
  by (induction ss arbitrary: subs cn) (simp_all add: conn_add_def)

lemma subscribe_subjects_refused:
  assumes "\<forall>s\<in>set ss. nc s = None" and "nc s = Some err"
  shows "subscribe_subjects nc (ss @ s # rest) subs cn =
    (cn\<lparr>cn_next := cn_next cn + length ss, cn_active := cn_active cn @ new_subs (cn_next cn) ss\<rparr>,
     Inl (''userclient: failed to subscribe to '' @ s @ '': '' @ err))"
  using assms(1)
  by (induction ss arbitrary: subs cn) (simp_all add: conn_add_def assms(2))

lemma client_Unsubscribe_ok:
  "\<forall>x\<in>set subs. unsub x = None \<Longrightarrow>
    client_Unsubscribe unsub subs cn =
      (cn\<lparr>cn_active := filter (\<lambda>x. x \<notin> set subs) (cn_active cn)\<rparr>, None)"
proof (induction subs arbitrary: cn)
  case (Cons sub subs)
  have "(\<lambda>x. x \<noteq> sub \<and> x \<notin> set subs) = (\<lambda>x. x \<notin> set (sub # subs))" by auto
  with Cons show ?case by (simp add: conn_remove_def)
qed simp

text \<open>
  What a client subscribes to it can give up again: the connection has the active subscriptions
  it had before.
\<close>

lemma Subscribe_Unsubscribe:
  assumes ok: "conn_ok cn" and "\<And>s. s \<in> set event_subjects \<Longrightarrow> nc s = None"
    and "\<And>x. unsub x = None"
  shows "\<exists>subs cn' cn''. client_Subscribe nc cn = (cn', Inr subs)
    \<and> map snd subs = event_subjects
    \<and> client_Unsubscribe unsub subs cn' = (cn'', None) \<and> cn_active cn'' = cn_active cn"
proof -
  let ?new = "new_subs (cn_next cn) event_subjects"
  have "filter (\<lambda>x. x \<notin> set ?new) (cn_active cn) = cn_active cn"
    using ok new_subs_fresh [of _ "cn_next cn" event_subjects]
    by (intro filter_True) (force simp: conn_ok_def)
  moreover have "client_Subscribe nc cn =
      (cn\<lparr>cn_next := cn_next cn + length event_subjects, cn_active := cn_active cn @ ?new\<rparr>, Inr ?new)"
    using assms(2) subscribe_subjects_ok [of event_subjects nc "[]" cn]
    by (simp add: client_Subscribe_def)
  moreover have "map snd ?new = event_subjects" by (simp add: event_subjects_def)
  ultimately show ?thesis
    using assms(3) client_Unsubscribe_ok [of ?new unsub] by simp
qed

lemma Subscribe_refused:
  assumes "nc SubjectUserCreated = None" and "nc SubjectUserUpdated = Some err"
  shows "\<exists>cn' m. client_Subscribe nc cn = (cn', Inl m)
    \<and> cn_active cn' = cn_active cn @ [(cn_next cn, SubjectUserCreated)]"
  using assms by (simp add: client_Subscribe_def event_subjects_def conn_add_def)

text \<open>A client that follows the events gives all its subscriptions back when it is closed.\<close>

lemma Close_releases:
  assumes ok: "conn_ok cn" and nc: "\<And>s. nc s = None" and unsub: "\<And>x. unsub x = None"
  shows "\<exists>lc cn' lc' cn''. start_client nc True cn = (lc, cn')
    \<and> client_Close unsub lc cn' = Return (lc', cn'') \<and> cn_active cn'' = cn_active cn
    \<and> (\<exists>m. client_Close unsub lc' cn'' = Panic m)"
proof -
  obtain subs cn' cn'' where s: "client_Subscribe nc cn = (cn', Inr subs)"
    and u: "client_Unsubscribe unsub subs cn' = (cn'', None)" "cn_active cn'' = cn_active cn"
    using Subscribe_Unsubscribe [OF ok] nc unsub by blast
  show ?thesis
    using s u by (simp add: start_client_def subscribeForCacheSync_def client_Close_def)
qed

subsection \<open>Properties\<close>

text \<open>
  \<open>Subscribe\<close> on a connection that takes the three subscriptions, and \<open>Unsubscribe\<close> of
  what it returned, leave the active subscriptions of the connection as they were.
\<close>

theorem subscription_round_trip:
  assumes "conn_ok cn" and "\<And>s. s \<in> set event_subjects \<Longrightarrow> nc s = None" and "\<And>x. unsub x = None"
  shows "\<exists>subs cn' cn''. client_Subscribe nc cn = (cn', Inr subs)
    \<and> map snd subs = event_subjects
    \<and> client_Unsubscribe unsub subs cn' = (cn'', None) \<and> cn_active cn'' = cn_active cn"
  using assms by (rule Subscribe_Unsubscribe)

theorem subscription_round_trip_witness:
  "\<exists>subs cn' cn''. client_Subscribe (\<lambda>s. None) \<lparr>cn_next = 3, cn_active = [(2, ''a'')]\<rparr> = (cn', Inr subs)
    \<and> map snd subs = event_subjects
    \<and> client_Unsubscribe (\<lambda>x. None) subs cn' = (cn'', None)
    \<and> cn_active cn'' = cn_active \<lparr>cn_next = 3, cn_active = [(2, ''a'')]\<rparr>"
  by (rule subscription_round_trip) (simp_all add: conn_ok_def)

text \<open>
  When the connection refuses a later subscription, \<open>Subscribe\<close> fails but leaves the
  earlier one active, and its caller gets nothing to end it with.
\<close>

theorem failed_subscription_leaks:
  assumes "nc SubjectUserCreated = None" and "nc SubjectUserUpdated = Some err"
  shows "\<exists>cn' m. client_Subscribe nc cn = (cn', Inl m)
    \<and> cn_active cn' = cn_active cn @ [(cn_next cn, SubjectUserCreated)]"
  using assms by (rule Subscribe_refused)

theorem failed_subscription_leaks_witness:
  "\<exists>cn' m. client_Subscribe (\<lambda>s. if s = SubjectUserCreated then None else Some ''nats: timeout'')
      \<lparr>cn_next = 0, cn_active = []\<rparr> = (cn', Inl m)
    \<and> cn_active cn' = cn_active \<lparr>cn_next = 0, cn_active = []\<rparr>
        @ [(cn_next \<lparr>cn_next = 0, cn_active = []\<rparr>, SubjectUserCreated)]"
  by (rule failed_subscription_leaks) (simp_all add: subject_defs)

end
