(* ===== verification/Service_Config.thy ===== *)
theory Service_Config
  imports Ums_Prelude
begin

text \<open>
  The configuration of the two services (\<open>user-service/internal/config/config.go\<close>,
  \<open>gateway-service/internal/config/config.go\<close>). Environment variables are a function, \<open>''''\<close>
  for an unset one; \<open>file\<close> is the content of \<open>config.yaml\<close>, \<open>None\<close> when it cannot be read;
  \<open>yaml\<close> is the YAML package, which updates the configuration it is given or fails with a text.
\<close>

type_synonym 'cfg yaml_package = "string \<Rightarrow> 'cfg \<Rightarrow> string + 'cfg"

definition read_file :: "'cfg yaml_package \<Rightarrow> string option \<Rightarrow> 'cfg \<Rightarrow> string + 'cfg" where
  "read_file yaml file cfg =
     (case file of
        None \<Rightarrow> Inr cfg
      | Some data \<Rightarrow>
          (case yaml data cfg of
             Inl err \<Rightarrow> Inl (''failed to parse config.yaml: '' @ err)
           | Inr cfg' \<Rightarrow> Inr cfg'))"

definition override :: "(string \<Rightarrow> string) \<Rightarrow> string \<Rightarrow> string \<Rightarrow> string" where
  "override env name v = (if env name \<noteq> [] then env name else v)"

subsection \<open>The user service\<close>

record user_config =
  uc_DatabaseURL :: string
  uc_NATSURL :: string
  uc_LogLevel :: string

definition user_defaults :: user_config where
  "user_defaults =
     \<lparr>uc_DatabaseURL = '''', uc_NATSURL = ''nats://127.0.0.1:4222'', uc_LogLevel = ''info''\<rparr>"

definition user_Load ::
  "user_config yaml_package \<Rightarrow> string option \<Rightarrow> (string \<Rightarrow> string) \<Rightarrow> string + user_config" where
  "user_Load yaml file env =
     (case read_file yaml file user_defaults of
        Inl err \<Rightarrow> Inl err
      | Inr cfg \<Rightarrow>
          (let cfg' = \<lparr>uc_DatabaseURL = override env ''DATABASE_URL'' (uc_DatabaseURL cfg),
                       uc_NATSURL = override env ''NATS_URL'' (uc_NATSURL cfg),
                       uc_LogLevel = override env ''LOG_LEVEL'' (uc_LogLevel cfg)\<rparr> in
           if uc_DatabaseURL cfg' = [] then Inl ''DATABASE_URL is required but not set''
           else Inr cfg'))"

subsection \<open>The gateway\<close>

record gateway_config =
  gcfg_NATSURL :: string
  gcfg_Port :: string
  gcfg_CacheEnabled :: bool
  gcfg_LogLevel :: string

definition gateway_defaults :: gateway_config where
  "gateway_defaults =
     \<lparr>gcfg_NATSURL = ''nats://127.0.0.1:4222'', gcfg_Port = ''8080'', gcfg_CacheEnabled = True,
      gcfg_LogLevel = ''info''\<rparr>"

definition gateway_Load ::
  "gateway_config yaml_package \<Rightarrow> string option \<Rightarrow> (string \<Rightarrow> string) \<Rightarrow> string + gateway_config" where
  "gateway_Load yaml file env =
     (case read_file yaml file gateway_defaults of
        Inl err \<Rightarrow> Inl err
      | Inr cfg \<Rightarrow>
          Inr \<lparr>gcfg_NATSURL = override env ''NATS_URL'' (gcfg_NATSURL cfg),
               gcfg_Port = override env ''PORT'' (gcfg_Port cfg),
               gcfg_CacheEnabled =
                 (if env ''CACHE_ENABLED'' = ''false'' then False else gcfg_CacheEnabled cfg),
               gcfg_LogLevel = override env ''LOG_LEVEL'' (gcfg_LogLevel cfg)\<rparr>)"

subsection \<open>Lemmas\<close>

text \<open>
  When the user service has a configuration: the file can be parsed or is not there, and one of
  the two sources names the database.
\<close>

lemma user_Load_succeeds:
  "(\<exists>cfg. user_Load yaml file env = Inr cfg) \<longleftrightarrow>
     (\<exists>cfg. read_file yaml file user_defaults = Inr cfg
       \<and> (env ''DATABASE_URL'' \<noteq> [] \<or> uc_DatabaseURL cfg \<noteq> []))"
  by (auto simp: user_Load_def override_def Let_def split: sum.split)

lemma user_Load_database: "user_Load yaml file env = Inr cfg \<Longrightarrow> uc_DatabaseURL cfg \<noteq> []"
  by (auto simp: user_Load_def Let_def split: sum.splits if_splits)

text \<open>The environment can switch the cache off, never on.\<close>

lemma gateway_Load_cache:
  assumes "gateway_Load yaml file env = Inr cfg" and "read_file yaml file gateway_defaults = Inr cfg'"
  shows "gcfg_CacheEnabled cfg \<longleftrightarrow> gcfg_CacheEnabled cfg' \<and> env ''CACHE_ENABLED'' \<noteq> ''false''"
  using assms by (auto simp: gateway_Load_def split: if_splits)

end
