(* ===== verification/Service_Main.thy ===== *)
theory Service_Main
  imports "HOL-Library.Sublist" Request_Logger Ws_Connection Client_Lifecycle Service_Config
begin

text \<open>
  The two programs (\<open>user-service/cmd/main.go\<close>, \<open>gateway-service/cmd/main.go\<close>): how they put
  the layers together, and the calls they make to start and to stop, in order. What the world
  answers to a call (the database, the migrations, NATS, the HTTP server) is a value, an error
  text or \<open>None\<close>; log lines are left out. A start either ends with \<open>ExitStatus 1\<close> or gives the
  process that then waits for the signal.
\<close>

datatype log_level = LevelInfo | LevelDebug

definition logLevel :: "string \<Rightarrow> log_level" where
  "logLevel level = (if level = ''debug'' then LevelDebug else LevelInfo)"

datatype main_effect =
    SetLogger log_level
  | SqlOpen string
  | PingDB
  | MigrateNew string string
  | MigrateUp
  | NatsConnect string
  | NatsSubscribe string
  | NatsFlush
  | AwaitSignal
  | NatsUnsubscribe string
  | NatsDrain
  | DBClose
  | ListenAndServe string
  | ServerShutdown
  | ClientClose "subscription list"
  | Crash string
  | ExitStatus nat

text \<open>A call and what follows it; after an error the process exits.\<close>

definition attempt ::
  "main_effect \<Rightarrow> string option \<Rightarrow> main_effect list \<times> 'p option \<Rightarrow> main_effect list \<times> 'p option" where
  "attempt call err rest =
     (case err of
        Some m \<Rightarrow> ([call, ExitStatus 1], None)
      | None \<Rightarrow> (call # fst rest, snd rest))"

subsection \<open>The user service\<close>

record ('c, 'db) nats_handler =
  nh_svc :: "('c, 'db) user_service"
  nh_deps :: handler_deps
  nh_subs :: "(string \<times> ('c, 'db) handler) list"

definition NewHandler :: "('c, 'db) user_service \<Rightarrow> handler_deps \<Rightarrow> ('c, 'db) nats_handler" where
  "NewHandler svc d = \<lparr>nh_svc = svc, nh_deps = d, nh_subs = []\<rparr>"

datatype up_result = Applied | ErrNoChange | UpFailed string

fun up_error :: "up_result \<Rightarrow> string option" where
  "up_error (UpFailed m) = Some m"
| "up_error r = None"

record user_outside =
  uo_yaml :: "user_config yaml_package"
  uo_file :: "string option"
  uo_env :: "string \<Rightarrow> string"
  uo_open :: "string option"
  uo_ping :: "string option"
  uo_migrate :: "string option"
  uo_up :: up_result
  uo_connect :: "string option"
  uo_subscribe :: "string \<Rightarrow> string option"
  uo_flush :: "string option"

abbreviation user_cfg :: "user_outside \<Rightarrow> string + user_config" where
  "user_cfg o' \<equiv> user_Load (uo_yaml o') (uo_file o') (uo_env o')"

text \<open>The calls of \<open>Subscribe\<close>: up to the first error, the flush when there is none.\<close>

fun subscribe_calls :: "(string \<Rightarrow> string option) \<Rightarrow> string list \<Rightarrow> main_effect list" where
  "subscribe_calls nc [] = [NatsFlush]"
| "subscribe_calls nc (s # ss) =
     NatsSubscribe s # (if nc s = None then subscribe_calls nc ss else [])"

definition subscribe_handlers ::
  "user_outside \<Rightarrow> ('c, 'db) nats_handler \<Rightarrow> main_effect list \<times> ('c, 'db) nats_handler option" where
  "subscribe_handlers o' h =
     (let calls = subscribe_calls (uo_subscribe o')
            (map fst (handler_entries :: (string \<times> ('c, 'db) handler) list)) in
      case handler_Subscribe (uo_subscribe o') (uo_flush o') of
        (subs, Some err) \<Rightarrow> (calls @ [ExitStatus 1], None)
      | (subs, None) \<Rightarrow> (calls, Some (h\<lparr>nh_subs := subs\<rparr>)))"

definition user_start ::
  "user_outside \<Rightarrow> handler_deps \<Rightarrow> main_effect list \<times> (pg_env, table) nats_handler option" where
  "user_start o' d =
     (case user_cfg o' of
        Inl err \<Rightarrow> ([ExitStatus 1], None)
      | Inr cfg \<Rightarrow>
          attempt (SetLogger (logLevel (uc_LogLevel cfg))) None
          (attempt (SqlOpen (uc_DatabaseURL cfg)) (uo_open o')
          (attempt PingDB (uo_ping o')
          (attempt (MigrateNew ''file://db/migrations'' (uc_DatabaseURL cfg)) (uo_migrate o')
          (attempt MigrateUp (up_error (uo_up o'))
          (attempt (NatsConnect (uc_NATSURL cfg)) (uo_connect o')
          (subscribe_handlers o' (NewHandler (NewService NewPostgresRepository) d))))))))"

text \<open>After the signal; errors are logged.\<close>

definition user_stop :: "('c, 'db) nats_handler \<Rightarrow> main_effect list" where
  "user_stop h = map (NatsUnsubscribe \<circ> fst) (nh_subs h) @ [NatsDrain, DBClose]"

definition user_main :: "user_outside \<Rightarrow> handler_deps \<Rightarrow> main_effect list" where
  "user_main o' d =
     (case user_start o' d of
        (calls, None) \<Rightarrow> calls
      | (calls, Some h) \<Rightarrow> calls @ [AwaitSignal] @ user_stop h)"

subsection \<open>The gateway\<close>

record ('c, 's) ws_handler =
  wh_deps :: "('c, 's) ws_deps"
  wh_cfg :: ws_config

definition NewWSHandler ::
  "('c, 's) user_port \<Rightarrow> ('c \<Rightarrow> string option) \<Rightarrow> ws_config \<Rightarrow> ('c, 's) ws_handler" where
  "NewWSHandler svc sub cfg =
     \<lparr>wh_deps = \<lparr>wd_svc = svc, wd_Subscribe = sub\<rparr>, wh_cfg = cfg\<rparr>"

datatype ('c, 's) endpoint =
    HttpRoute "('c, 's) http_action"
  | WsRoute "('c, 's) ws_handler"

record ('c, 'w) gateway_process =
  gp_lifecycle :: lifecycle
  gp_connection :: connection
  gp_http :: "('c, 'w client_state) http_handler"
  gp_routes :: "((string \<times> string) \<times> ('c, 'w client_state) endpoint) list"
  gp_gateway :: "'w client_state gateway"
  gp_addr :: string

datatype listen_result = ServerClosed | ListenFails string

record gateway_outside =
  go_yaml :: "gateway_config yaml_package"
  go_file :: "string option"
  go_env :: "string \<Rightarrow> string"
  go_connect :: "string option"
  go_subscribe :: "string \<Rightarrow> string option"
  go_unsubscribe :: "subscription \<Rightarrow> string option"
  go_listen :: listen_result

abbreviation gateway_cfg :: "gateway_outside \<Rightarrow> string + gateway_config" where
  "gateway_cfg o' \<equiv> gateway_Load (go_yaml o') (go_file o') (go_env o')"

definition no_connection :: connection where
  "no_connection = \<lparr>cn_next = 0, cn_active = []\<rparr>"

text \<open>
  The start: \<open>c\<close> is the environment of the call that loads the cache, \<open>vld\<close> the validator,
  \<open>sub\<close> the answer to a \<open>Subscribe\<close> of the client port.
\<close>

definition gateway_start ::
  "gateway_outside \<Rightarrow> ('c, 'w) client_env \<Rightarrow> validator \<Rightarrow> ('c \<Rightarrow> string option) \<Rightarrow> 'c \<Rightarrow> 'w
     \<Rightarrow> main_effect list \<times> ('c, 'w) gateway_process option" where
  "gateway_start o' ce vld sub c w =
     (case gateway_cfg o' of
        Inl err \<Rightarrow> ([ExitStatus 1], None)
      | Inr cfg \<Rightarrow>
          attempt (SetLogger (logLevel (gcfg_LogLevel cfg))) None
          (attempt (NatsConnect (gcfg_NATSURL cfg)) (go_connect o')
          (case NewUserClient (ce_rpc ce c) (go_connect o') (gcfg_CacheEnabled cfg) w of
             (w', Inl err) \<Rightarrow> ([ExitStatus 1], None)
           | (w', Inr client) \<Rightarrow>
               let (lc, cn) = start_client (go_subscribe o') (gcfg_CacheEnabled cfg) no_connection;
                   adapter = NewUserClientAdapter ce;
                   svc = NewApp adapter;
                   h = NewHttpHandler vld svc;
                   ws = NewWSHandler svc sub ws_DefaultConfig
               in ([ListenAndServe (CHR '':'' # gcfg_Port cfg)],
                   Some \<lparr>gp_lifecycle = lc, gp_connection = cn, gp_http = h,
                         gp_routes = map (\<lambda>(k, act). (k, HttpRoute act)) RegisterRoutes
                           @ [((''GET'', ''/api/v1/ws''), WsRoute ws)],
                         gp_gateway = start_gateway (client, w'),
                         gp_addr = CHR '':'' # gcfg_Port cfg\<rparr>))))"

text \<open>
  After the signal: the server is shut down, then the deferred \<open>Close\<close> of the client runs. When
  the server stops with an error first, its goroutine exits the process, and nothing is closed.
\<close>

definition gateway_stop :: "gateway_outside \<Rightarrow> ('c, 'w) gateway_process \<Rightarrow> main_effect list" where
  "gateway_stop o' p =
     (case client_Close (go_unsubscribe o') (gp_lifecycle p) (gp_connection p) of
        Panic m \<Rightarrow> [ServerShutdown, Crash m]
      | Return (lc, cn) \<Rightarrow> [ServerShutdown, ClientClose (cn_active cn)])"

definition gateway_main ::
  "gateway_outside \<Rightarrow> ('c, 'w) client_env \<Rightarrow> validator \<Rightarrow> ('c \<Rightarrow> string option) \<Rightarrow> 'c \<Rightarrow> 'w
     \<Rightarrow> main_effect list" where
  "gateway_main o' ce vld sub c w =
     (case gateway_start o' ce vld sub c w of
        (calls, None) \<Rightarrow> calls
      | (calls, Some p) \<Rightarrow>
          calls @ (case go_listen o' of
                     ListenFails m \<Rightarrow> [ExitStatus 1]
                   | ServerClosed \<Rightarrow> AwaitSignal # gateway_stop o' p))"

subsection \<open>Lemmas\<close>

lemma attempt_simps [simp]:
  "attempt call None rest = (call # fst rest, snd rest)"
  "attempt call (Some m) rest = ([call, ExitStatus 1], None)"
  by (simp_all add: attempt_def)

definition user_subjects :: "string list" where
  "user_subjects =
     [SubjectCreateUser, SubjectGetUserByID, SubjectGetUserByEmail, SubjectListUsers,
      SubjectListAllUsers, SubjectUpdateUser, SubjectDeleteUser]"

lemma handler_entries_subjects [simp]: "map fst handler_entries = user_subjects"
  by (simp add: handler_entries_def user_subjects_def)

lemma handler_entries_all:
  "(\<forall>e\<in>set handler_entries. P (fst e)) \<longleftrightarrow> (\<forall>s\<in>set user_subjects. P s)"
  by (simp add: handler_entries_def user_subjects_def)

lemma subscribe_all_ok:
  "\<forall>e\<in>set es. nc (fst e) = None \<Longrightarrow> subscribe_all nc es subs = (subs @ es, None)"
  by (induction es arbitrary: subs) simp_all

lemma subscribe_all_fails:
  "\<lbrakk>e \<in> set es; nc (fst e) \<noteq> None\<rbrakk> \<Longrightarrow> \<exists>subs' err. subscribe_all nc es subs = (subs', Some err)"
  by (induction es arbitrary: subs) (auto split: option.split)

lemma subscribe_calls_prefix: "prefix (subscribe_calls nc ss) (map NatsSubscribe ss @ [NatsFlush])"
  by (induction ss) simp_all

lemma subscribe_calls_ok:
  "\<forall>s\<in>set ss. nc s = None \<Longrightarrow> subscribe_calls nc ss = map NatsSubscribe ss @ [NatsFlush]"
  by (induction ss) simp_all

text \<open>The calls of a start that succeeds, and when it does.\<close>

definition user_startup :: "user_config \<Rightarrow> main_effect list" where
  "user_startup cfg =
     [SetLogger (logLevel (uc_LogLevel cfg)), SqlOpen (uc_DatabaseURL cfg), PingDB,
      MigrateNew ''file://db/migrations'' (uc_DatabaseURL cfg), MigrateUp,
      NatsConnect (uc_NATSURL cfg)] @ map NatsSubscribe user_subjects @ [NatsFlush]"

definition user_answers_ok :: "user_outside \<Rightarrow> bool" where
  "user_answers_ok o' \<longleftrightarrow>
     uo_open o' = None \<and> uo_ping o' = None \<and> uo_migrate o' = None \<and> up_error (uo_up o') = None
     \<and> uo_connect o' = None \<and> (\<forall>s\<in>set user_subjects. uo_subscribe o' s = None)
     \<and> uo_flush o' = None"

lemma subscribe_handlers_ok:
  fixes h :: "('c, 'db) nats_handler"
  assumes "\<forall>s\<in>set user_subjects. uo_subscribe o' s = None" and "uo_flush o' = None"
  shows "subscribe_handlers o' h =
    (map NatsSubscribe user_subjects @ [NatsFlush], Some (h\<lparr>nh_subs := handler_entries\<rparr>))"
proof -
  have "\<forall>e\<in>set (handler_entries :: (string \<times> ('c, 'db) handler) list). uo_subscribe o' (fst e) = None"
    using assms(1) handler_entries_all [of "\<lambda>s. uo_subscribe o' s = None"] by (rule iffD2 [rotated])
  from subscribe_all_ok [OF this, of "[]"] show ?thesis
    using assms subscribe_calls_ok [of user_subjects "uo_subscribe o'"]
    by (simp add: subscribe_handlers_def handler_Subscribe_def)
qed

lemma subscribe_handlers_fails:
  fixes h :: "('c, 'db) nats_handler"
  assumes "\<not> ((\<forall>s\<in>set user_subjects. uo_subscribe o' s = None) \<and> uo_flush o' = None)"
  shows "\<exists>calls. subscribe_handlers o' h = (calls @ [ExitStatus 1], None)
    \<and> prefix calls (map NatsSubscribe user_subjects @ [NatsFlush])"
proof -
  let ?es = "handler_entries :: (string \<times> ('c, 'db) handler) list"
  have "\<exists>subs err. handler_Subscribe (uo_subscribe o') (uo_flush o') =
      (subs :: (string \<times> ('c, 'db) handler) list, Some err)"
  proof (cases "\<forall>e\<in>set ?es. uo_subscribe o' (fst e) = None")
    case True
    then have "\<forall>s\<in>set user_subjects. uo_subscribe o' s = None"
      by (rule iffD1 [OF handler_entries_all])
    then obtain err where "uo_flush o' = Some err" using assms by (cases "uo_flush o'") auto
    with subscribe_all_ok [OF True, of "[]"] show ?thesis by (simp add: handler_Subscribe_def)
  next
    case False
    then obtain e where "e \<in> set ?es" "uo_subscribe o' (fst e) \<noteq> None" by blast
    from subscribe_all_fails [of e ?es "uo_subscribe o'" "[]", OF this]
    obtain subs err where "subscribe_all (uo_subscribe o') ?es [] = (subs, Some err)" by blast
    then show ?thesis by (simp add: handler_Subscribe_def)
  qed
  then obtain subs err where "handler_Subscribe (uo_subscribe o') (uo_flush o') =
      (subs :: (string \<times> ('c, 'db) handler) list, Some err)" by blast
  then have "subscribe_handlers o' h =
      (subscribe_calls (uo_subscribe o') user_subjects @ [ExitStatus 1], None)"
    by (simp add: subscribe_handlers_def)
  with subscribe_calls_prefix show ?thesis by blast
qed

lemma user_start_ok:
  assumes "user_cfg o' = Inr cfg" and "user_answers_ok o'"
  shows "user_start o' d = (user_startup cfg,
    Some \<lparr>nh_svc = pg_service, nh_deps = d, nh_subs = handler_entries\<rparr>)"
  using assms
  by (simp add: user_start_def user_answers_ok_def subscribe_handlers_ok user_startup_def
      NewHandler_def pg_service_def)

lemma user_start_fails:
  assumes cfg: "user_cfg o' = Inr cfg" and bad: "\<not> user_answers_ok o'"
  shows "\<exists>calls. user_start o' d = (calls @ [ExitStatus 1], None) \<and> prefix calls (user_startup cfg)"
proof (cases "uo_open o' = None \<and> uo_ping o' = None \<and> uo_migrate o' = None
    \<and> up_error (uo_up o') = None \<and> uo_connect o' = None")
  case True
  then have "\<not> ((\<forall>s\<in>set user_subjects. uo_subscribe o' s = None) \<and> uo_flush o' = None)"
    using bad by (auto simp: user_answers_ok_def)
  from subscribe_handlers_fails [OF this, of "NewHandler (NewService NewPostgresRepository) d"]
  show ?thesis using True cfg by (auto simp: user_start_def user_startup_def simp del: prefix_snoc)
next
  case False
  with cfg show ?thesis
    by (cases "uo_open o'"; cases "uo_ping o'"; cases "uo_migrate o'"; cases "up_error (uo_up o')";
        cases "uo_connect o'") (simp_all add: user_start_def user_startup_def)
qed

text \<open>The client that \<open>main\<close> has started can be closed, whatever NATS answers.\<close>

lemma started_client_closes:
  assumes "start_client nc enabled cn = (lc, cn')"
  shows "\<exists>lc' cn''. client_Close unsub lc cn' = Return (lc', cn'')"
  using assms
  by (auto simp: start_client_def subscribeForCacheSync_def client_Close_def Let_def
      split: if_splits prod.splits sum.splits)

lemma started_client_releases:
  assumes "start_client nc enabled no_connection = (lc, cn)"
    and "client_Close unsub lc cn = Return (lc', cn')"
    and "\<And>s. nc s = None" and "\<And>x. unsub x = None"
  shows "cn_active cn' = []"
proof (cases enabled)
  case True
  have "conn_ok no_connection" by (simp add: conn_ok_def no_connection_def)
  from Close_releases [of no_connection nc unsub, OF this assms(3,4)] assms(1,2) True show ?thesis
    by (auto simp: no_connection_def)
next
  case False
  with assms(1,2) show ?thesis by (auto simp: start_client_def client_Close_def no_connection_def)
qed

definition loaded_client :: "handler_deps \<Rightarrow> bool \<Rightarrow> table \<Rightarrow> client" where
  "loaded_client d enabled t =
     (if enabled
      then \<lparr>cl_cache = Some (client_view d (pg_users t)), cl_fullyLoaded = True\<rparr>
      else NewWithConn)"

lemma NewUserClient_loaded:
  assumes "documented d is_email is_uuid" and "pg_good c" and "table_ok t"
  shows "NewUserClient (service_rpc d pg_service c) None enabled (t, log) =
    ((t, log), Inr (loaded_client d enabled t))"
  using loadCache_in_step [OF assms] by (simp add: NewUserClient_def loaded_client_def)

text \<open>The routes of the gateway, and the calls of its start.\<close>

definition gateway_paths :: "(string \<times> string) list" where
  "gateway_paths =
     [(''GET'', PathHealth), (''POST'', PathUsers), (''GET'', PathUsers), (''GET'', PathUserByEmail),
      (''GET'', PathUserByID), (''PUT'', PathUserByID), (''DELETE'', PathUserByID),
      (''GET'', ''/api/v1/ws'')]"

definition gateway_startup :: "gateway_config \<Rightarrow> main_effect list" where
  "gateway_startup cfg =
     [SetLogger (logLevel (gcfg_LogLevel cfg)), NatsConnect (gcfg_NATSURL cfg),
      ListenAndServe (CHR '':'' # gcfg_Port cfg)]"

lemma RegisterRoutes_paths:
  "map fst (RegisterRoutes :: ((string \<times> string) \<times> ('c, 's) http_action) list) @ [(''GET'', ''/api/v1/ws'')]
    = gateway_paths"
  by (simp add: RegisterRoutes_def gateway_paths_def)

subsection \<open>Properties\<close>

text \<open>
  C22. The start of the user service: when the configuration can be read and every call succeeds
  (a migration with nothing to do counts as success) it opens and pings the database, migrates
  it, connects to NATS and subscribes the handlers of all seven subjects over the service on
  PostgreSQL, in this order, waits for the signal, and then unsubscribes, drains and closes. In
  every other case it makes a part of these calls, exits with status 1, and never waits.
\<close>

theorem user_main_runs:
  "case user_cfg o' of
     Inl err \<Rightarrow> user_main o' d = [ExitStatus 1]
   | Inr cfg \<Rightarrow>
       if user_answers_ok o'
       then user_start o' d = (user_startup cfg,
              Some \<lparr>nh_svc = pg_service, nh_deps = d, nh_subs = handler_entries\<rparr>)
         \<and> user_main o' d = user_startup cfg @ AwaitSignal # map NatsUnsubscribe user_subjects
             @ [NatsDrain, DBClose]
       else (\<exists>calls. user_main o' d = calls @ [ExitStatus 1] \<and> prefix calls (user_startup cfg))"
proof (cases "user_cfg o'")
  case (Inl err)
  then show ?thesis by (simp add: user_main_def user_start_def)
next
  case (Inr cfg)
  show ?thesis
  proof (cases "user_answers_ok o'")
    case True
    then show ?thesis using user_start_ok [OF Inr True, of d] Inr
      by (simp add: user_main_def user_stop_def flip: map_map)
  next
    case False
    then show ?thesis using user_start_fails [OF Inr False, of d] Inr
      by (auto simp: user_main_def)
  qed
qed


text \<open>
  C21. The gateway that \<open>main\<close> builds on a running user service: its routes go to the handlers
  over the client of that service, the WebSocket route is there as well, and the client's cache,
  when it is enabled, starts as the view of the live users, marked as complete. After the signal
  the server is shut down before the client is closed, which leaves no subscription behind when
  NATS takes them back; a server that cannot listen exits the process with nothing closed.
\<close>

theorem gateway_main_runs:
  assumes cfg: "gateway_cfg o' = Inr cfg" and nats: "go_connect o' = None"
    and "documented d is_email is_uuid" and "pg_good c" and "table_ok t"
    and vld: "validator_documented vld is_email is_uuid"
  shows "\<exists>p rest. gateway_start o' (gateway_env d pg_service it) vld sub c (t, log) =
        (gateway_startup cfg, Some p)
    \<and> http_over (gp_http p) d it is_email is_uuid
    \<and> gp_gateway p = start_gateway (loaded_client d (gcfg_CacheEnabled cfg) t, (t, log))
    \<and> map fst (gp_routes p) = gateway_paths
    \<and> gateway_main o' (gateway_env d pg_service it) vld sub c (t, log) = gateway_startup cfg @
        (case go_listen o' of
           ListenFails m \<Rightarrow> [ExitStatus 1]
         | ServerClosed \<Rightarrow> [AwaitSignal, ServerShutdown, ClientClose rest])
    \<and> ((\<forall>s. go_subscribe o' s = None) \<and> (\<forall>x. go_unsubscribe o' x = None) \<longrightarrow> rest = [])"
proof -
  obtain lc cn where start: "start_client (go_subscribe o') (gcfg_CacheEnabled cfg) no_connection = (lc, cn)"
    by (cases "start_client (go_subscribe o') (gcfg_CacheEnabled cfg) no_connection")
  obtain lc' cn' where stop: "client_Close (go_unsubscribe o') lc cn = Return (lc', cn')"
    using started_client_closes [OF start] by blast
  have rest: "(\<forall>s. go_subscribe o' s = None) \<and> (\<forall>x. go_unsubscribe o' x = None) \<longrightarrow> cn_active cn' = []"
    using started_client_releases [OF start stop] by blast
  let ?cl = "(loaded_client d (gcfg_CacheEnabled cfg) t, (t, log))"
  let ?app = "gateway_app d pg_service it"
  let ?p = "\<lparr>gp_lifecycle = lc, gp_connection = cn, gp_http = NewHttpHandler vld ?app,
      gp_routes = map (\<lambda>(k, act). (k, HttpRoute act)) RegisterRoutes
        @ [((''GET'', ''/api/v1/ws''), WsRoute (NewWSHandler ?app sub ws_DefaultConfig))],
      gp_gateway = start_gateway ?cl, gp_addr = CHR '':'' # gcfg_Port cfg\<rparr>"
  have s: "gateway_start o' (gateway_env d pg_service it) vld sub c (t, log) =
      (gateway_startup cfg, Some ?p)"
    using cfg nats start NewUserClient_loaded [OF assms(3-5)]
    by (simp add: gateway_start_def gateway_startup_def gateway_env_def gateway_app_def Let_def)
  have "gateway_main o' (gateway_env d pg_service it) vld sub c (t, log) = gateway_startup cfg @
        (case go_listen o' of
           ListenFails m \<Rightarrow> [ExitStatus 1]
         | ServerClosed \<Rightarrow> [AwaitSignal, ServerShutdown, ClientClose (cn_active cn')])"
    using s stop by (simp add: gateway_main_def gateway_stop_def split: listen_result.split)
  moreover have "http_over (gp_http ?p) d it is_email is_uuid"
    using vld by (simp add: http_over_def NewHttpHandler_def)
  moreover have "map fst (gp_routes ?p) = gateway_paths"
    using RegisterRoutes_paths by (simp add: comp_def split_def)
  ultimately show ?thesis using s rest by (intro exI [of _ ?p] exI [of _ "cn_active cn'"]) simp
qed

theorem gateway_main_runs_witness:
  "\<exists>p. gateway_start \<lparr>go_yaml = (\<lambda>s cfg. Inr cfg), go_file = None, go_env = (\<lambda>n. ''''),
        go_connect = None, go_subscribe = (\<lambda>s. None), go_unsubscribe = (\<lambda>x. None),
        go_listen = ServerClosed\<rparr>
      (gateway_env plain_deps pg_service (\<lambda>_. [''x''])) (plain_validator plain_email plain_uuid)
      (\<lambda>_. None) (plain_env 1) ([ada_row], []) = (gateway_startup gateway_defaults, Some p)
    \<and> gp_gateway p = start_gateway (loaded_client plain_deps True [ada_row], ([ada_row], []))"
proof -
  let ?o = "\<lparr>go_yaml = (\<lambda>s cfg. Inr cfg), go_file = None, go_env = (\<lambda>n. ''''),
    go_connect = None, go_subscribe = (\<lambda>s. None), go_unsubscribe = (\<lambda>x. None),
    go_listen = ServerClosed\<rparr>"
  have cfg: "gateway_cfg ?o = Inr gateway_defaults"
    by (simp add: gateway_Load_def read_file_def override_def gateway_defaults_def)
  have enabled: "gcfg_CacheEnabled gateway_defaults" by (simp add: gateway_defaults_def)
  from gateway_main_runs [OF cfg, of plain_deps plain_email plain_uuid "plain_env 1" "[ada_row]"
      "plain_validator plain_email plain_uuid" "\<lambda>_. [''x'']" "\<lambda>_. None" "[]"]
  show ?thesis using enabled by (auto simp: plain_validator_documented)
qed

end
