(* ===== verification/Cache_Progress.thy ===== *)
theory Cache_Progress
  imports Cache_Sync
begin

text \<open>
  Progress of the cache's goroutines. After \<open>Close\<close> has closed \<open>stopCh\<close>, \<open>processCacheUpdates\<close>
  makes finitely many steps more, whatever the forwarder and the subscription callbacks, which go
  on, put into the channels meanwhile; none of its steps is ever missing before it has left, and it
  leaves with at least the updates of the closing time written. While the client is open, forwarder
  and processor work off what was delivered: two steps for each event, and as long as a channel
  holds something one of them can make a step.
\<close>

abbreviation deleted_event :: "string \<Rightarrow> event" where
  "deleted_event i \<equiv> \<lparr>ev_Type = ''deleted'', ev_Payload = DeletedPayload \<lparr>evt_UserID = i\<rparr>\<rparr>"

fun processor_label :: "pipe_label \<Rightarrow> bool" where
  "processor_label (Apply u) = True"
| "processor_label SeeStop = True"
| "processor_label Exit = True"
| "processor_label _ = False"

definition processor_work :: "pipeline \<Rightarrow> nat" where
  "processor_work p =
     length (pl_updateCh p) + (case pl_processor p of Running \<Rightarrow> 2 | Draining \<Rightarrow> 1 | Exited \<Rightarrow> 0)"

text \<open>
  Each step of the processor uses up one unit of work. The forwarder moves one unit from \<open>eventCh\<close>,
  or drops it, and only a delivered message brings a new one.
\<close>

lemma delivered_append [simp]: "delivered (ls @ ms) = delivered ls @ delivered ms"
  by (induction ls rule: delivered.induct) simp_all

lemma pipe_step_work:
  "pipe_step p l q \<Longrightarrow>
     length (filter processor_label [l]) + processor_work q + length (pl_eventCh q)
       \<le> processor_work p + length (pl_eventCh p) + length (delivered [l])"
proof (induction rule: pipe_step.induct)
  case (deliver p s data)
  then show ?case
    by (cases data) (auto simp: processor_work_def deliver_step_def offer_def split: option.split)
next
  case (forward p e es)
  then show ?case
    by (auto simp: processor_work_def forward_step_def offer_def split: option.split)
qed (auto simp: processor_work_def split: processor.splits)

lemma pipe_run_work:
  "pipe_run p ls q \<Longrightarrow>
     length (filter processor_label ls) + processor_work q + length (pl_eventCh q)
       \<le> processor_work p + length (pl_eventCh p) + length (delivered ls)"
proof (induction rule: pipe_run.induct)
  case (snoc p ls q l r)
  then show ?case using pipe_step_work [OF snoc.hyps(2)] by simp
qed simp

lemma processor_work_bound: "processor_work p \<le> length (pl_updateCh p) + 2"
  by (simp add: processor_work_def split: processor.split)

text \<open>As long as the processor has not left, it can make a step.\<close>

lemma processor_progress:
  assumes "pl_stopClosed p" and "pl_processor p \<noteq> Exited"
  shows "\<exists>l q. processor_label l \<and> pipe_step p l q"
proof (cases "pl_updateCh p")
  case (Cons u us)
  from pipe_step.apply_update [OF assms(2) Cons] show ?thesis
    by (metis processor_label.simps(1))
next
  case Nil
  show ?thesis
  proof (cases "pl_processor p")
    case Running
    from pipe_step.see_stop [OF this assms(1)] show ?thesis by (metis processor_label.simps(2))
  next
    case Draining
    from pipe_step.exit [OF this Nil] show ?thesis by (metis processor_label.simps(3))
  qed (use assms(2) in simp)
qed

text \<open>\<open>stopCh\<close> stays closed, and nothing but the processor takes from \<open>updateCh\<close>.\<close>

lemma pipe_step_stop: "\<lbrakk>pipe_step p l q; pl_stopClosed p\<rbrakk> \<Longrightarrow> pl_stopClosed q"
  by (induction rule: pipe_step.induct)
    (auto simp: deliver_step_def forward_step_def split: option.split)

lemma pipe_run_stop: "\<lbrakk>pipe_run p ls q; pl_stopClosed p\<rbrakk> \<Longrightarrow> pl_stopClosed q"
  by (induction rule: pipe_run.induct) (auto intro: pipe_step_stop)

lemma pipe_step_queue:
  "pipe_step p l q \<Longrightarrow> prefix (pl_updateCh p) (applied [l] @ pl_updateCh q)"
  by (induction rule: pipe_step.induct)
    (auto simp: deliver_step_def forward_step_def offer_def split: option.split)

lemma pipe_run_queue: "pipe_run p ls q \<Longrightarrow> prefix (pl_updateCh p) (applied ls @ pl_updateCh q)"
proof (induction rule: pipe_run.induct)
  case (snoc p ls q l r)
  have "prefix (applied ls @ pl_updateCh q) (applied (ls @ [l]) @ pl_updateCh r)"
    using pipe_step_queue [OF snoc.hyps(2)] by simp
  with snoc.IH show ?case by (rule prefix_order.trans)
qed simp

text \<open>When the processor leaves, the queue is empty: what it held at any time before is written.\<close>

lemma pipe_step_left:
  assumes "pipe_step p l q" and "pl_processor q = Exited"
  shows "(pl_processor p = Exited \<and> applied [l] = []) \<or> (l = Exit \<and> pl_updateCh q = [])"
  using assms
  by (cases rule: pipe_step.cases)
    (auto simp: deliver_step_def forward_step_def split: option.splits)

lemma pipe_run_left:
  "\<lbrakk>pipe_run p ls q; pl_processor p \<noteq> Exited; pl_processor q = Exited\<rbrakk> \<Longrightarrow>
     prefix (pl_updateCh p) (applied ls)"
proof (induction rule: pipe_run.induct)
  case (snoc p ls q l r)
  from pipe_step_left [OF snoc.hyps(2) snoc.prems(2)] show ?case
  proof
    assume "pl_processor q = Exited \<and> applied [l] = []"
    then show ?thesis using snoc.IH snoc.prems(1) by simp
  next
    assume "l = Exit \<and> pl_updateCh r = []"
    then show ?thesis using pipe_run_queue [OF pipe_run.snoc [OF snoc.hyps]] by simp
  qed
qed simp

subsection \<open>Working off the events\<close>

fun pipe_work :: "pipe_label \<Rightarrow> bool" where
  "pipe_work Forward = True"
| "pipe_work (Apply u) = True"
| "pipe_work _ = False"

definition pending_work :: "pipeline \<Rightarrow> nat" where
  "pending_work p = 2 * length (pl_eventCh p) + length (pl_updateCh p)"

lemma pipe_step_pending:
  "pipe_step p l q \<Longrightarrow>
     length (filter pipe_work [l]) + pending_work q \<le> pending_work p + 2 * length (delivered [l])"
proof (induction rule: pipe_step.induct)
  case (deliver p s data)
  then show ?case
    by (cases data) (auto simp: pending_work_def deliver_step_def event_of_msg_def offer_def
        wire_simps split: option.split)
next
  case (forward p e es)
  then show ?case
    by (auto simp: pending_work_def forward_step_def offer_def split: option.split)
qed (auto simp: pending_work_def)

lemma pipe_run_pending:
  "pipe_run p ls q \<Longrightarrow>
     length (filter pipe_work ls) + pending_work q \<le> pending_work p + 2 * length (delivered ls)"
proof (induction rule: pipe_run.induct)
  case (snoc p ls q l r)
  then show ?case using pipe_step_pending [OF snoc.hyps(2)] by simp
qed simp

lemma pipe_run_open:
  "\<lbrakk>pipe_run p ls q; CloseStop \<notin> set ls; \<not> pl_stopClosed p; pl_processor p = Running\<rbrakk> \<Longrightarrow>
     \<not> pl_stopClosed q \<and> pl_processor q = Running"
proof (induction rule: pipe_run.induct)
  case (snoc p ls q l r)
  then have "\<not> pl_stopClosed q \<and> pl_processor q = Running" by simp
  with snoc.hyps(2) snoc.prems(1) show ?case
    by (cases rule: pipe_step.cases)
      (auto simp: deliver_step_def forward_step_def split: option.split)
qed simp

lemma work_progress:
  assumes "pl_processor p \<noteq> Exited" and "pl_eventCh p \<noteq> [] \<or> pl_updateCh p \<noteq> []"
  shows "\<exists>l q. pipe_work l \<and> pipe_step p l q"
proof (cases "pl_eventCh p")
  case (Cons e es)
  from pipe_step.forward [OF this] show ?thesis by (metis pipe_work.simps(1))
next
  case Nil
  then obtain u us where "pl_updateCh p = u # us" using assms(2) by (cases "pl_updateCh p") auto
  from pipe_step.apply_update [OF assms(1) this] show ?thesis by (metis pipe_work.simps(2))
qed

text \<open>A client in operation has written every delivered event, or one of its goroutines can act.\<close>

lemma events_worked_off:
  assumes run: "pipe_run (start_pipeline c) ls q" and "CloseStop \<notin> set ls"
    and "\<And>v. Populate v \<notin> set ls" and "length (delivered ls) \<le> cacheUpdateBufferSize"
  shows "length (filter pipe_work ls) \<le> 2 * length (delivered ls)
    \<and> ((\<exists>l r. pipe_work l \<and> pipe_step q l r) \<or> pl_cache q = fold apply_msg (delivered ls) c)"
proof -
  have "pl_processor q \<noteq> Exited"
    using pipe_run_open [OF run assms(2)] by (simp add: start_pipeline_def)
  moreover have "length (filter pipe_work ls) \<le> 2 * length (delivered ls)"
    using pipe_run_pending [OF run] by (simp add: pending_work_def start_pipeline_def)
  ultimately show ?thesis
    using work_progress [of q] pipe_quiescent_delivered [OF run _ _ assms(4,3)] by blast
qed

subsection \<open>Properties\<close>

text \<open>
  C10. After \<open>Close\<close> the goroutine of the cache ends, however the forwarder, the subscription
  callbacks and the lookups that populate the cache go on beside it: the number of its steps is
  bounded by what the two channels held, plus the messages that still come, plus two; it can always
  make a step until it has left, and no step afterwards; and when it has left, the updates that were
  queued at the closing time have been written to the cache, in order and before any later one.
\<close>

theorem processor_stops:
  assumes "pl_stopClosed p" and "pl_processor p \<noteq> Exited" and "pipe_run p ls q"
  shows "length (filter processor_label ls)
      \<le> length (pl_updateCh p) + length (pl_eventCh p) + length (delivered ls) + 2
    \<and> (pl_processor q = Exited \<longleftrightarrow> \<not> (\<exists>l r. processor_label l \<and> pipe_step q l r))
    \<and> (pl_processor q = Exited \<longrightarrow>
        prefix (pl_updateCh p) (applied ls) \<and> pl_cache q = fold cache_write ls (pl_cache p))"
proof -
  have "pl_processor q = Exited \<longleftrightarrow> \<not> (\<exists>l r. processor_label l \<and> pipe_step q l r)"
  proof
    assume "pl_processor q = Exited"
    then show "\<not> (\<exists>l r. processor_label l \<and> pipe_step q l r)" by (auto elim!: processor_label.elims(2))
  next
    assume "\<not> (\<exists>l r. processor_label l \<and> pipe_step q l r)"
    then show "pl_processor q = Exited"
      using processor_progress [OF pipe_run_stop [OF assms(3,1)]] by blast
  qed
  then show ?thesis
    using pipe_run_work [OF assms(3)] processor_work_bound [of p] pipe_run_left [OF assms(3,2)]
      pipe_run_cache [OF assms(3)]
    by auto
qed

text \<open>One update queued at the closing time, another one still with the forwarder.\<close>

theorem processor_stops_witness:
  "let x = (\<lambda>i. \<lparr>cu_eventType = ''deleted'', cu_user = None, cu_userID = i\<rparr>);
       p = (start_pipeline newCache)\<lparr>pl_updateCh := [x ''x''], pl_eventCh := [deleted_event ''y''],
             pl_stopClosed := True\<rparr>
   in \<exists>q. pipe_run p [SeeStop, Apply (x ''x''), Forward, Apply (x ''y''), Exit] q
      \<and> prefix [x ''x''] (applied [SeeStop, Apply (x ''x''), Forward, Apply (x ''y''), Exit])"
proof -
  let ?x = "\<lambda>i. \<lparr>cu_eventType = ''deleted'', cu_user = None, cu_userID = i\<rparr>"
  let ?p = "(start_pipeline newCache)\<lparr>pl_updateCh := [?x ''x''], pl_eventCh := [deleted_event ''y''],
      pl_stopClosed := True\<rparr>"
  let ?p1 = "?p\<lparr>pl_processor := Draining\<rparr>"
  let ?p2 = "?p1\<lparr>pl_updateCh := [], pl_cache := applyCacheUpdate (?x ''x'') (pl_cache ?p1)\<rparr>"
  let ?p3 = "forward_step (deleted_event ''y'') [] ?p2"
  let ?p4 = "?p3\<lparr>pl_updateCh := [], pl_cache := applyCacheUpdate (?x ''y'') (pl_cache ?p3)\<rparr>"
  let ?q = "?p4\<lparr>pl_processor := Exited\<rparr>"
  have "pipe_run ?p ([] @ [SeeStop]) ?p1"
    by (intro pipe_run.snoc [OF pipe_run.nil] pipe_step.see_stop) (simp_all add: start_pipeline_def)
  then have "pipe_run ?p (([] @ [SeeStop]) @ [Apply (?x ''x'')]) ?p2"
    by (rule pipe_run.snoc, intro pipe_step.apply_update) (simp_all add: start_pipeline_def)
  then have "pipe_run ?p ((([] @ [SeeStop]) @ [Apply (?x ''x'')]) @ [Forward]) ?p3"
    by (rule pipe_run.snoc, intro pipe_step.forward) simp
  then have "pipe_run ?p (((([] @ [SeeStop]) @ [Apply (?x ''x'')]) @ [Forward]) @ [Apply (?x ''y'')]) ?p4"
    by (rule pipe_run.snoc, intro pipe_step.apply_update)
      (simp_all add: forward_step_def offer_def cacheUpdateBufferSize_def update_of_event_def)
  then have "pipe_run ?p ((((([] @ [SeeStop]) @ [Apply (?x ''x'')]) @ [Forward]) @ [Apply (?x ''y'')]) @ [Exit]) ?q"
    by (rule pipe_run.snoc, intro pipe_step.exit)
      (simp_all add: forward_step_def update_of_event_def)
  then have run: "pipe_run ?p [SeeStop, Apply (?x ''x''), Forward, Apply (?x ''y''), Exit] ?q" by simp
  have "prefix [?x ''x''] (applied [SeeStop, Apply (?x ''x''), Forward, Apply (?x ''y''), Exit])"
    using processor_stops [OF _ _ run] by (simp add: start_pipeline_def del: applied.simps)
  with run show ?thesis unfolding Let_def by blast
qed

end
