(* ===== verification/Nats_Delivery.thy ===== *)
theory Nats_Delivery
  imports User_System
begin

text \<open>
  What becomes of the effects of a handler on the NATS connection (\<open>natsadaptor/handler.go\<close>:
  \<open>reply\<close>, \<open>publishEvent\<close>). The connection may refuse a reply or an event; the handler then
  only logs the error. The replies and events are JSON values that always marshal. The rest of
  the theory shows what such a loss means for a client.
\<close>

record nats_answers =
  na_respond :: "string option"
  na_publish :: "string \<Rightarrow> string option"

definition send_reply :: "nats_answers \<Rightarrow> json \<Rightarrow> effect list" where
  "send_reply nc payload = (case na_respond nc of None \<Rightarrow> [Reply payload] | Some err \<Rightarrow> [])"

definition publishEvent :: "nats_answers \<Rightarrow> string \<Rightarrow> json \<Rightarrow> effect list" where
  "publishEvent nc subject payload =
     (case na_publish nc subject of None \<Rightarrow> [Publish subject payload] | Some err \<Rightarrow> [])"

text \<open>The effects that get through, in order; an error does not stop the later ones.\<close>

fun perform :: "nats_answers \<Rightarrow> effect list \<Rightarrow> effect list" where
  "perform nc [] = []"
| "perform nc (Reply j # es) = send_reply nc j @ perform nc es"
| "perform nc (Publish s j # es) = publishEvent nc s j @ perform nc es"

text \<open>
  A request over such a connection: without a reply the client's context runs out.
\<close>

definition deadline_exceeded :: string where
  "deadline_exceeded = ''context deadline exceeded''"

definition lossy_rpc ::
  "nats_answers \<Rightarrow> handler_deps \<Rightarrow> ('c, 'db) user_service \<Rightarrow> 'c
     \<Rightarrow> ('db \<times> (string \<times> json) list) transport" where
  "lossy_rpc nc d svc c s j w =
     (case deliver handler_entries d svc c s (Some j) (fst w) of
        (db', es) \<Rightarrow>
          ((db', snd w @ published (perform nc es)),
           if es = [] then Inl ''nats: no responders available for request''
           else case replies (perform nc es) of
             [] \<Rightarrow> Inl deadline_exceeded
           | r # _ \<Rightarrow> Inr (Some r)))"

definition taken :: "nats_answers \<Rightarrow> (string \<times> json) list \<Rightarrow> (string \<times> json) list" where
  "taken nc evs = filter (\<lambda>e. na_publish nc (fst e) = None) evs"

lemma replies_append [simp]: "replies (es @ fs) = replies es @ replies fs"
  by (induction es rule: replies.induct) simp_all

lemma perform_published: "published (perform nc es) = taken nc (published es)"
  by (induction nc es rule: perform.induct)
    (simp_all add: send_reply_def publishEvent_def taken_def split: option.split)

lemma perform_replies:
  "replies (perform nc es) = (if na_respond nc = None then replies es else [])"
  by (induction nc es rule: perform.induct)
    (auto simp: send_reply_def publishEvent_def split: option.split)

text \<open>A loss touches the answer and the events, never what the service does.\<close>

lemma lossy_service:
  assumes "service_rpc d svc c s j (db, log) = ((db', log @ evs), Inr (Some r))"
  shows "lossy_rpc nc d svc c s j (db, log) = ((db', log @ taken nc evs),
    if na_respond nc = None then Inr (Some r) else Inl deadline_exceeded)"
proof -
  obtain es where del: "deliver handler_entries d svc c s (Some j) db = (db', es)"
    and evs: "evs = published es" and r: "\<exists>rs. replies es = r # rs"
    using assms by (auto simp: service_rpc_def split: prod.splits list.splits)
  then have "es \<noteq> []" by auto
  with del r show ?thesis
    by (auto simp: lossy_rpc_def evs perform_published perform_replies)
qed

lemma deliver_replies:
  "deliver handler_entries d svc c s data db = (db', es) \<Longrightarrow> replies es = [] \<longleftrightarrow> es = []"
  using deliver_exchange [of s d svc c data db]
  by (auto simp: exchange_defs user_error_def user_reply_def users_error_def users_reply_def
      delete_error_def split: if_splits)

lemma lossless_service:
  "\<lbrakk>na_respond nc = None; \<And>s. na_publish nc s = None\<rbrakk> \<Longrightarrow> lossy_rpc nc d svc = service_rpc d svc"
  by (rule ext)+ (auto simp: lossy_rpc_def service_rpc_def perform_published perform_replies
      taken_def dest: deliver_replies split: prod.split list.split)

lemma lossy_table: "fst (fst (lossy_rpc nc d svc c s j w)) = fst (fst (service_rpc d svc c s j w))"
  by (simp add: lossy_rpc_def service_rpc_def split: prod.split)

lemma lossy_ok:
  "table_ok t \<Longrightarrow> table_ok (fst (fst (lossy_rpc nc d pg_service e s j (t, log))))"
  using users.deliver_inv [of t d e s "Some j"]
  by (auto simp: lossy_rpc_def split: prod.split)

subsection \<open>Types on the wire\<close>

text \<open>What a caller of a subject decodes into, and that it finds a result or an error there.\<close>

definition well_typed_reply :: "string \<Rightarrow> json \<Rightarrow> bool" where
  "well_typed_reply s j \<longleftrightarrow>
     (if s = SubjectListUsers \<or> s = SubjectListAllUsers
      then \<exists>r. unmarshal dec_users_response no_users_response (Some j) = Some r
        \<and> (resps_Error r = None \<longleftrightarrow> resps_Users r \<noteq> None)
      else if s = SubjectDeleteUser
      then \<exists>r. unmarshal dec_delete_response \<lparr>dresp_Error = None\<rparr> (Some j) = Some r
      else \<exists>r. unmarshal dec_user_response no_user_response (Some j) = Some r
        \<and> (resp_Error r = None \<longleftrightarrow> resp_User r \<noteq> None))"

definition well_typed_event :: "string \<times> json \<Rightarrow> bool" where
  "well_typed_event m \<longleftrightarrow>
     (\<exists>e. event_of_msg (fst m) (Some (snd m)) = Some e \<and> update_of_event e \<noteq> None)"

lemma event_simps:
  "well_typed_event (SubjectUserCreated, enc_user_event e)"
  "well_typed_event (SubjectUserUpdated, enc_user_event e)"
  "well_typed_event (SubjectUserDeleted, enc_deleted_event de)"
  by (simp_all add: well_typed_event_def event_of_msg_def subject_defs wire_simps
      update_of_event_def)

lemma reply_simps:
  "well_typed_reply SubjectDeleteUser (enc_delete_response r)"
  "s \<in> {SubjectListUsers, SubjectListAllUsers} \<Longrightarrow>
     (resps_Error rs = None \<longleftrightarrow> resps_Users rs \<noteq> None) \<Longrightarrow> well_typed_reply s (enc_users_response rs)"
  "s \<notin> {SubjectListUsers, SubjectListAllUsers, SubjectDeleteUser} \<Longrightarrow>
     (resp_Error ru = None \<longleftrightarrow> resp_User ru \<noteq> None) \<Longrightarrow> well_typed_reply s (enc_user_response ru)"
  by (auto simp: well_typed_reply_def wire_simps subject_defs)

lemma exchange_well_typed:
  "exchange s es \<Longrightarrow> list_all (well_typed_reply s) (replies es) \<and> list_all well_typed_event (published es)"
  by (cases s rule: subject_cases)
    (auto simp: rpc_simps user_exchange_def users_exchange_def delete_exchange_def user_error_def
      user_reply_def users_error_def users_reply_def delete_error_def event_simps
      intro!: reply_simps, simp_all add: subject_defs)

subsection \<open>Properties\<close>

text \<open>
  C7. Replies and events have the types the client decodes: whatever the message and whatever
  service is behind the handlers, each reply decodes as the response type of its subject and
  carries either a result or an error, never both and never neither, and each event decodes and
  is one that the cache understands.
\<close>

theorem replies_are_well_typed:
  "list_all (well_typed_reply s) (replies (snd (deliver handler_entries d svc c s data db)))
   \<and> list_all well_typed_event (published (snd (deliver handler_entries d svc c s data db)))"
  by (rule exchange_well_typed [OF deliver_exchange])

text \<open>
  C11. An event that NATS does not take is lost for good: the deletion is carried out and
  reported as a success, nothing is published, and a client whose cache was in step before goes
  on answering with the deleted user.
\<close>

theorem lost_event_leaves_cache_stale:
  assumes good: "good_call d is_email is_uuid e t (DeleteOp s)"
    and i: "hd_uuid_parse d s = Some i" "hd_uuid_string d i = s" and u: "pg_users t i = Some u"
    and nc: "na_respond nc = None" "na_publish nc SubjectUserDeleted = Some err"
    and cl: "cl_cache cl = Some (client_view d (pg_users t))"
  shows "\<exists>t'. client_DeleteUser (lossy_rpc nc d pg_service e) s (t, log) = ((t', log), Return (Inr ()))
    \<and> pg_users t' = (pg_users t)(i := None)
    \<and> client_GetUserByID rpc s cl (t', log) = ((t', log), cl, Return (Inr (toDTO d u)))"
proof -
  obtain a t' j where rpc: "service_rpc d pg_service e SubjectDeleteUser
      (enc_id_request \<lparr>ir_UserID = s\<rparr>) (t, log) = ((t', log @ op_event d (DeleteOp s) a), Inr (Some j))"
    and j: "op_reply d (DeleteOp s) a = Reply j"
    and s: "serve (hd_uuid_parse d) (pg_fresh e t) (pg_users t) (DeleteOp s) a (pg_users t')"
    using pg_rpc_serves [OF good, of log] by auto
  have a: "a = Done" and t': "pg_users t' = (pg_users t)(i := None)"
    using s i u by (auto elim: serve_DeleteE)
  have "lossy_rpc nc d pg_service e SubjectDeleteUser (enc_id_request \<lparr>ir_UserID = s\<rparr>) (t, log) =
      ((t', log), Inr (Some j))"
    using lossy_service [OF rpc, of nc] nc a by (simp add: taken_def)
  then have "client_DeleteUser (lossy_rpc nc d pg_service e) s (t, log) = ((t', log), Return (Inr ()))"
    using j a by (auto simp: client_DeleteUser_def request_def rpc_simps wire_simps)
  moreover have "client_view d (pg_users t) s = Some (toDTO d u)"
    using i u by (simp add: client_view_def)
  ultimately show ?thesis using t' client_GetUserByID_hit [OF cl] by auto
qed

theorem lost_event_leaves_cache_stale_witness:
  "\<exists>t'. client_DeleteUser (lossy_rpc \<lparr>na_respond = None, na_publish = (\<lambda>s. Some ''nats: connection closed'')\<rparr>
        plain_deps pg_service (plain_env 2)) ''x'' ([ada_row], []) = ((t', []), Return (Inr ()))
    \<and> pg_users t' 1 = None
    \<and> client_GetUserByID (service_rpc plain_deps pg_service (plain_env 3)) ''x''
        \<lparr>cl_cache = Some (client_view plain_deps (pg_users [ada_row])), cl_fullyLoaded = True\<rparr> (t', [])
      = ((t', []), \<lparr>cl_cache = Some (client_view plain_deps (pg_users [ada_row])), cl_fullyLoaded = True\<rparr>,
         Return (Inr (toDTO plain_deps (toDomainUser ada_row))))"
proof -
  have good: "good_call plain_deps plain_email plain_uuid (plain_env 2) [ada_row] (DeleteOp ''x'')"
    by (simp add: good_call_def del: accepted.simps)
  have u: "pg_users [ada_row] 1 = Some (toDomainUser ada_row)"
    by (simp add: pg_users_def live_rows_def ada_row_def null_time_zero_def)
  from lost_event_leaves_cache_stale [OF good _ _ u,
      of "\<lparr>na_respond = None, na_publish = (\<lambda>s. Some ''nats: connection closed'')\<rparr>" "''nats: connection closed''"
        "\<lparr>cl_cache = Some (client_view plain_deps (pg_users [ada_row])), cl_fullyLoaded = True\<rparr>"
        "[]" "service_rpc plain_deps pg_service (plain_env 3)"]
  show ?thesis by (auto simp: plain_deps_def)
qed

text \<open>
  C12. A request that runs into its deadline may still have been carried out: when the reply to a
  creation is lost the client reports a transport error although the user is stored, and the
  same request again is refused because the address is taken.
\<close>

theorem lost_reply_hides_creation:
  assumes good: "good_call d is_email is_uuid e t (CreateOp q)"
    and free: "\<forall>w\<in>ran (pg_users t). u_Email w \<noteq> cr_Email q" "pg_fresh e t"
    and nc: "na_respond nc = Some err"
    and again: "pg_good e'" "op_texts e' (CreateOp q)"
  shows "\<exists>t' log' v. client_CreateUser (lossy_rpc nc d pg_service e) q (t, log) =
        ((t', log'), Return (Inl (TransportError SubjectCreateUser deadline_exceeded)))
    \<and> pg_users t' = (pg_users t)(u_UserId v \<mapsto> v) \<and> same_data v (created_user q)
    \<and> (\<exists>w. client_CreateUser (service_rpc d pg_service e') q (t', log') =
        (w, Return (Inl (mapRPCError (mapDomainErr ErrEmailAlreadyExists)))))"
proof -
  obtain a t' j where rpc: "service_rpc d pg_service e SubjectCreateUser (enc_create_request q) (t, log)
      = ((t', log @ op_event d (CreateOp q) a), Inr (Some j))"
    and s: "serve (hd_uuid_parse d) (pg_fresh e t) (pg_users t) (CreateOp q) a (pg_users t')"
    using pg_rpc_serves [OF good, of log] by auto
  obtain v where t': "pg_users t' = (pg_users t)(u_UserId v \<mapsto> v)" and v: "same_data v (created_user q)"
    using s free by (auto elim!: serve_CreateE)
  have email: "u_Email v = cr_Email q"
    using v by (simp add: same_data_def created_user_def new_user_def)
  let ?log = "log @ taken nc (op_event d (CreateOp q) a)"
  have lossy: "lossy_rpc nc d pg_service e SubjectCreateUser (enc_create_request q) (t, log) =
      ((t', ?log), Inl deadline_exceeded)"
    using lossy_service [OF rpc, of nc] nc by simp
  have "table_ok t" using good by (simp add: good_call_def)
  from lossy_ok [OF this, of nc d e SubjectCreateUser "enc_create_request q" log] lossy
  have "good_call d is_email is_uuid e' t' (CreateOp q)"
    using good again by (simp add: good_call_def del: accepted.simps op_texts.simps)
  from client_Create_serves [OF this, of ?log] obtain a' t'' r where
    c: "client_CreateUser (service_rpc d pg_service e') q (t', ?log) =
        ((t'', ?log @ op_event d (CreateOp q) a'), Return r)"
    and s': "serve (hd_uuid_parse d) (pg_fresh e' t') (pg_users t') (CreateOp q) a' (pg_users t'')"
    and told: "told_user d a' r"
    by blast
  have "v \<in> ran (pg_users t')" using t' by (auto intro: ranI)
  with s' email have "a' = Failed ErrEmailAlreadyExists" by (auto elim!: serve_CreateE)
  with c told have "\<exists>w. client_CreateUser (service_rpc d pg_service e') q (t', ?log) =
      (w, Return (Inl (mapRPCError (mapDomainErr ErrEmailAlreadyExists))))" by simp
  moreover have "client_CreateUser (lossy_rpc nc d pg_service e) q (t, log) =
      ((t', ?log), Return (Inl (TransportError SubjectCreateUser deadline_exceeded)))"
    using lossy by (simp add: client_CreateUser_def request_def user_of_def)
  ultimately show ?thesis using t' v by blast
qed

theorem lost_reply_hides_creation_witness:
  "\<exists>t' log' v. client_CreateUser (lossy_rpc \<lparr>na_respond = Some ''nats: connection closed'', na_publish = (\<lambda>s. None)\<rparr>
        plain_deps pg_service (plain_env 1)) ada_request ([], []) =
        ((t', log'), Return (Inl (TransportError SubjectCreateUser deadline_exceeded)))
    \<and> pg_users t' = [u_UserId v \<mapsto> v]"
proof -
  have good: "good_call plain_deps plain_email plain_uuid (plain_env 1) [] (CreateOp ada_request)"
    by (simp add: good_call_def del: accepted.simps op_texts.simps)
  have empty: "pg_users [] = Map.empty" by (simp add: pg_users_def live_rows_def fun_eq_iff)
  have "op_texts (plain_env 2) (CreateOp ada_request)" "pg_good (plain_env 2)"
    by (simp_all del: op_texts.simps)
  from lost_reply_hides_creation [OF good _ _ _ this(2,1),
      of "\<lparr>na_respond = Some ''nats: connection closed'', na_publish = (\<lambda>s. None)\<rparr>" "''nats: connection closed''" "[]"]
  show ?thesis by (auto simp: empty pg_fresh_def)
qed

end
