(* ===== verification/Handler_Concurrency.thy ===== *)
theory Handler_Concurrency
  imports User_System
begin

text \<open>
  The handlers of different subjects run at the same time: NATS calls each subscription's handler
  in a goroutine of its own, one message after the other (\<open>natsadaptor/handler.go\<close>:
  \<open>Subscribe\<close>). The handlers share nothing but the database. A handler makes at most one call of the
  repository (\<open>deliver_counted\<close> below), each repository method is one SQL statement
  (one \<open>run_stmt\<close> in each definition of \<open>Postgres_Repository\<close>), and PostgreSQL executes a statement
  at once; therefore what a handler does to the table is one step here. Its reply and its event
  follow as steps of their own, and steps of other handlers come between.
\<close>

text \<open>
  \<open>sr_busy\<close> is what the handler of a subject has still to send, \<open>sr_sent\<close> what was sent, with the
  subject of the handler.
\<close>

record service_state =
  sr_table :: table
  sr_busy :: "string \<Rightarrow> effect list"
  sr_sent :: "(string \<times> effect) list"

definition idle_service :: "table \<Rightarrow> service_state" where
  "idle_service t = \<lparr>sr_table = t, sr_busy = (\<lambda>s. []), sr_sent = []\<rparr>"

datatype service_label =
    Serve pg_env string "json option"
  | Send string

inductive service_step ::
  "handler_deps \<Rightarrow> service_state \<Rightarrow> service_label \<Rightarrow> service_state \<Rightarrow> bool" for d where
  serve: "\<lbrakk>sr_busy r s = []; deliver handler_entries d pg_service e s data (sr_table r) = (t', es)\<rbrakk> \<Longrightarrow>
    service_step d r (Serve e s data) (r\<lparr>sr_table := t', sr_busy := (sr_busy r)(s := es)\<rparr>)"
| send: "sr_busy r s = x # es \<Longrightarrow>
    service_step d r (Send s) (r\<lparr>sr_busy := (sr_busy r)(s := es), sr_sent := sr_sent r @ [(s, x)]\<rparr>)"

inductive service_run ::
  "handler_deps \<Rightarrow> service_state \<Rightarrow> service_label list \<Rightarrow> service_state \<Rightarrow> bool" for d where
  nil: "service_run d r [] r"
| snoc: "\<lbrakk>service_run d r ls r'; service_step d r' l r''\<rbrakk> \<Longrightarrow> service_run d r (ls @ [l]) r''"

inductive_cases service_step_ServeE: "service_step d r (Serve e s data) r'"
inductive_cases service_step_SendE: "service_step d r (Send s) r'"

lemma service_run_append:
  "\<lbrakk>service_run d r' ls' r''; service_run d r ls r'\<rbrakk> \<Longrightarrow> service_run d r (ls @ ls') r''"
proof (induction rule: service_run.induct)
  case (snoc a ls' b l c)
  from service_run.snoc [OF snoc.IH [OF snoc.prems] snoc.hyps(2)] show ?case by simp
qed simp

lemma service_run_Cons:
  "\<lbrakk>service_step d r l r'; service_run d r' ls r''\<rbrakk> \<Longrightarrow> service_run d r (l # ls) r''"
  using service_run_append [of d r' ls r'' r "[l]"] service_run.snoc [OF service_run.nil, of d r l r']
  by simp

text \<open>The messages of a run in the order of their statements.\<close>

fun served :: "service_label list \<Rightarrow> (pg_env \<times> string \<times> json option) list" where
  "served [] = []"
| "served (Serve e s data # ls) = (e, s, data) # served ls"
| "served (Send s # ls) = served ls"

lemma served_append [simp]: "served (ls @ ls') = served ls @ served ls'"
  by (induction ls rule: served.induct) simp_all

lemma serve_messages_snoc:
  "fst (serve_messages d (ms @ [(e, s, data)]) t) =
     fst (deliver handler_entries d pg_service e s data (fst (serve_messages d ms t)))"
  by (induction ms arbitrary: t) (auto simp: case_prod_beta)

text \<open>A handler sends what it has to send, and then all of them can be idle.\<close>

lemma send_all:
  "sr_busy r s = es \<Longrightarrow> service_run d r (replicate (length es) (Send s))
     (r\<lparr>sr_busy := (sr_busy r)(s := []), sr_sent := sr_sent r @ map (Pair s) es\<rparr>)"
proof (induction es arbitrary: r)
  case Nil
  then show ?case using service_run.nil [of d r] by (simp add: fun_upd_idem)
next
  case (Cons x es)
  let ?r = "r\<lparr>sr_busy := (sr_busy r)(s := es), sr_sent := sr_sent r @ [(s, x)]\<rparr>"
  have "service_step d r (Send s) ?r" by (rule service_step.send [OF Cons.prems])
  moreover have "service_run d ?r (replicate (length es) (Send s))
      (?r\<lparr>sr_busy := (sr_busy ?r)(s := []), sr_sent := sr_sent ?r @ map (Pair s) es\<rparr>)"
    by (rule Cons.IH) simp
  ultimately have "service_run d r (Send s # replicate (length es) (Send s))
      (?r\<lparr>sr_busy := (sr_busy ?r)(s := []), sr_sent := sr_sent ?r @ map (Pair s) es\<rparr>)"
    by (rule service_run_Cons)
  then show ?case by (simp del: fun_upd_apply)
qed

text \<open>One request that is served, as the first step of a handler.\<close>

lemma serve_step:
  assumes good: "good_call d is_email is_uuid e (sr_table r) oper"
    and idle: "sr_busy r (op_subject oper) = []"
  obtains a t' where "service_step d r (Serve e (op_subject oper) (Some (op_payload oper)))
      (r\<lparr>sr_table := t', sr_busy := (sr_busy r)(op_subject oper := op_effects d oper a)\<rparr>)"
    and "serve (hd_uuid_parse d) (pg_fresh e (sr_table r)) (pg_users (sr_table r)) oper a (pg_users t')"
    and "table_ok t'"
proof -
  obtain t' es where del: "deliver handler_entries d pg_service e (op_subject oper)
      (Some (op_payload oper)) (sr_table r) = (t', es)" by fastforce
  have ok: "table_ok (sr_table r)" using good by (simp add: good_call_def)
  obtain a where es: "es = op_effects d oper a"
    and s: "serve (hd_uuid_parse d) (pg_fresh e (sr_table r)) (pg_users (sr_table r)) oper a (pg_users t')"
    using good del pg_deliver_serves [of e "sr_table r" d is_email is_uuid "op_subject oper"
        "Some (op_payload oper)" oper]
    by (auto simp: good_call_def documented_def rpc_simps)
  have "table_ok t'"
    using users.deliver_inv [OF ok, of d e "op_subject oper" "Some (op_payload oper)"] del by simp
  with that service_step.serve [OF idle del] es s show thesis by simp
qed

subsection \<open>One call of the repository\<close>

text \<open>A repository with a counter of the calls of its methods.\<close>

definition count_call :: "('db \<Rightarrow> 'db \<times> 'r) \<Rightarrow> nat \<times> 'db \<Rightarrow> (nat \<times> 'db) \<times> 'r" where
  "count_call f s = (case f (snd s) of (db', r) \<Rightarrow> ((Suc (fst s), db'), r))"

definition counted :: "('c, 'db) user_repository \<Rightarrow> ('c, nat \<times> 'db) user_repository" where
  "counted repo =
     \<lparr>repo_Create = (\<lambda>c u. count_call (repo_Create repo c u)),
      repo_GetByID = (\<lambda>c i. count_call (repo_GetByID repo c i)),
      repo_GetByEmail = (\<lambda>c em. count_call (repo_GetByEmail repo c em)),
      repo_List = (\<lambda>c st l off. count_call (repo_List repo c st l off)),
      repo_ListAll = (\<lambda>c st. count_call (repo_ListAll repo c st)),
      repo_Update = (\<lambda>c u. count_call (repo_Update repo c u)),
      repo_Delete = (\<lambda>c i. count_call (repo_Delete repo c i))\<rparr>"

lemma deliver_counted:
  "deliver handler_entries d (NewService (counted repo)) c s data (n, db) =
     (case deliver handler_entries d (NewService repo) c s data db of
        (db', es) \<Rightarrow>
          ((case decoded s data of
              None \<Rightarrow> n
            | Some oper \<Rightarrow> if accepted d oper then Suc n else n,
            db'), es))"
proof (cases s rule: subject_cases)
  case 8
  then show ?thesis by (simp add: rpc_simps decoded_def)
qed (auto simp: rpc_simps decoded_eqs handler_defs counted_def count_call_def Let_def
    split: option.split prod.split sum.split)

subsection \<open>Orderly runs\<close>

text \<open>The cache entry that an event message is about.\<close>

definition event_key :: "string \<times> json \<Rightarrow> string option" where
  "event_key m =
     map_option (\<lambda>u. case cu_user u of None \<Rightarrow> cu_userID u | Some v \<Rightarrow> dto_UserID v) (update_of_msg m)"

definition events_of :: "string \<Rightarrow> (string \<times> json) list \<Rightarrow> (string \<times> json) list" where
  "events_of k evs = filter (\<lambda>m. event_key m = Some k) evs"

lemma events_of_simps [simp]:
  "events_of k [] = []"
  "events_of k (m # evs) = (if event_key m = Some k then m # events_of k evs else events_of k evs)"
  "events_of k (evs @ evs') = events_of k evs @ events_of k evs'"
  by (simp_all add: events_of_def)

lemma event_key_simps [cache_simps]:
  "event_key (SubjectUserCreated, enc_user_event e) = Some (dto_UserID (evt_User e))"
  "event_key (SubjectUserUpdated, enc_user_event e) = Some (dto_UserID (evt_User e))"
  "event_key (SubjectUserDeleted, enc_deleted_event x) = Some (evt_UserID x)"
  by (simp_all add: event_key_def update_of_msg_def event_of_msg_def subject_defs wire_simps
      update_of_event_def)

text \<open>An event changes one entry of the cache, and what it writes does not depend on the cache.\<close>

lemma update_of_event_user:
  "update_of_event e = Some u \<Longrightarrow>
     (cu_eventType u \<in> {''created'', ''updated''} \<and> cu_user u \<noteq> None)
     \<or> (cu_eventType u = ''deleted'' \<and> cu_user u = None)"
  by (auto simp: update_of_event_def split: if_splits payload.splits)

lemma apply_msg_at:
  "apply_msg m c k = (if event_key m = Some k then apply_msg m Map.empty k else c k)"
proof (cases "update_of_msg m")
  case (Some u)
  then obtain e where "update_of_event e = Some u" by (auto simp: update_of_msg_def split: bind_splits)
  with Some show ?thesis
    using update_of_event_user [of e u]
    by (auto simp: apply_msg_def event_key_def applyCacheUpdate_def cache_set_def cache_delete_def)
qed (simp add: apply_msg_def event_key_def)

lemma fold_apply_msg_at:
  "c k = c' k \<Longrightarrow> fold apply_msg evs c k = fold apply_msg (events_of k evs) c' k"
proof (induction evs arbitrary: c c')
  case (Cons m evs)
  show ?case
  proof (cases "event_key m = Some k")
    case True
    then have "apply_msg m c k = apply_msg m c' k"
      using apply_msg_at [of m c k] apply_msg_at [of m c' k] by simp
    with Cons.IH [of "apply_msg m c" "apply_msg m c'"] True show ?thesis by simp
  next
    case False
    then have "apply_msg m c k = c' k"
      using apply_msg_at [of m c k] Cons.prems by simp
    with Cons.IH [of "apply_msg m c" c'] False show ?thesis by simp
  qed
qed simp

lemma fold_apply_msg_cong:
  assumes "\<And>k. events_of k evs = events_of k evs'"
  shows "fold apply_msg evs c = fold apply_msg evs' c"
proof
  fix k
  show "fold apply_msg evs c k = fold apply_msg evs' c k"
    using fold_apply_msg_at [of c k c evs] fold_apply_msg_at [of c k c evs'] assms [of k] by simp
qed

text \<open>
  A handler may change a user when no other handler has still to send an event of that user.
\<close>

fun orderly :: "handler_deps \<Rightarrow> service_state \<Rightarrow> service_label \<Rightarrow> bool" where
  "orderly d r (Serve e s data) =
     (\<forall>k s'. s' \<noteq> s \<longrightarrow>
        events_of k (published (snd (deliver handler_entries d pg_service e s data (sr_table r)))) = []
        \<or> events_of k (published (sr_busy r s')) = [])"
| "orderly d r (Send s) = True"

inductive orderly_run ::
  "handler_deps \<Rightarrow> service_state \<Rightarrow> service_label list \<Rightarrow> service_state \<Rightarrow> bool" for d where
  nil: "orderly_run d r [] r"
| snoc: "\<lbrakk>orderly_run d r ls r'; orderly d r' l; service_step d r' l r''\<rbrakk> \<Longrightarrow>
    orderly_run d r (ls @ [l]) r''"

text \<open>For each entry the events sent, and those the only handler that has any is still to send,
  are those of the serial execution, in its order.\<close>

lemma published_Cons: "published (x # es) = published [x] @ published es"
  by (cases x) simp_all

lemma serve_messages_snoc_events:
  "snd (serve_messages d (ms @ [(e, s, data)]) t) = snd (serve_messages d ms t)
     @ published (snd (deliver handler_entries d pg_service e s data (fst (serve_messages d ms t))))"
  by (induction ms arbitrary: t) (auto simp: case_prod_beta)

lemma orderly_step_events:
  assumes step: "service_step d r l r'" and ord: "orderly d r l"
    and inv: "\<exists>s. (\<forall>s'. s' \<noteq> s \<longrightarrow> events_of k (published (sr_busy r s')) = [])
      \<and> events_of k (published (map snd (sr_sent r))) @ events_of k (published (sr_busy r s)) = evs"
  shows "\<exists>s. (\<forall>s'. s' \<noteq> s \<longrightarrow> events_of k (published (sr_busy r' s')) = [])
      \<and> events_of k (published (map snd (sr_sent r'))) @ events_of k (published (sr_busy r' s))
        = evs @ (case l of Send s0 \<Rightarrow> [] | Serve e s0 data \<Rightarrow>
            events_of k (published (snd (deliver handler_entries d pg_service e s0 data (sr_table r)))))"
proof -
  obtain s where others: "\<And>s'. s' \<noteq> s \<Longrightarrow> events_of k (published (sr_busy r s')) = []"
    and evs: "events_of k (published (map snd (sr_sent r))) @ events_of k (published (sr_busy r s)) = evs"
    using inv by blast
  show ?thesis using step
  proof (cases rule: service_step.cases)
    case (serve s0 e data t' es)
    show ?thesis
    proof (cases "events_of k (published es) = []")
      case True
      then show ?thesis using serve others evs by (intro exI [of _ s]) auto
    next
      case False
      then have "events_of k (published (sr_busy r s')) = []" for s'
        using ord serve by (cases "s' = s0") auto
      then show ?thesis using serve evs by (intro exI [of _ s0]) auto
    qed
  next
    case (send s0 x es)
    have "events_of k (published [x]) @ events_of k (published es) = events_of k (published (sr_busy r s0))"
      using send by (simp add: published_Cons [of x es])
    then show ?thesis using send others [of s0] others evs by (intro exI [of _ s]) auto
  qed
qed

lemma orderly_run_events:
  "orderly_run d r ls r' \<Longrightarrow> r = idle_service t \<Longrightarrow>
     sr_table r' = fst (serve_messages d (served ls) t)
     \<and> (\<forall>k. \<exists>s. (\<forall>s'. s' \<noteq> s \<longrightarrow> events_of k (published (sr_busy r' s')) = [])
          \<and> events_of k (published (map snd (sr_sent r'))) @ events_of k (published (sr_busy r' s))
            = events_of k (snd (serve_messages d (served ls) t)))"
proof (induction rule: orderly_run.induct)
  case (nil r)
  then show ?case by (simp add: idle_service_def)
next
  case (snoc r ls r' l r'')
  note tab = conjunct1 [OF snoc.IH [OF snoc.prems]]
  have "sr_table r'' = fst (serve_messages d (served (ls @ [l])) t)"
    using snoc.hyps(3) tab by (cases rule: service_step.cases) (auto simp: serve_messages_snoc)
  moreover have "events_of k (snd (serve_messages d (served (ls @ [l])) t))
      = events_of k (snd (serve_messages d (served ls) t)) @ (case l of Send s0 \<Rightarrow> [] | Serve e s0 data \<Rightarrow>
          events_of k (published (snd (deliver handler_entries d pg_service e s0 data (sr_table r')))))" for k
    using tab by (cases l) (simp_all add: serve_messages_snoc_events)
  ultimately show ?case
    using orderly_step_events [OF snoc.hyps(3,2) spec [OF conjunct2 [OF snoc.IH [OF snoc.prems]]]]
    by (simp only:) blast
qed

text \<open>Sending is always orderly, and two handlers of different users can run at the same time.\<close>

lemma orderly_sends:
  "\<lbrakk>service_run d r' ls' r''; orderly_run d r ls r'; served ls' = []\<rbrakk> \<Longrightarrow> orderly_run d r (ls @ ls') r''"
proof (induction arbitrary: ls rule: service_run.induct)
  case (snoc a ls' b l c)
  then have "orderly_run d r (ls @ ls') b" and "orderly d b l"
    by (auto elim: served.elims split: service_label.splits)
  from orderly_run.snoc [OF this snoc.hyps(2)] show ?case by simp
qed simp

lemma served_sends [simp]: "served (replicate n (Send s)) = []"
  by (induction n) simp_all

lemma orderly_pair:
  assumes "s1 \<noteq> s2"
    and del1: "deliver handler_entries d pg_service e1 s1 x1 t = (t1, es1)"
    and del2: "deliver handler_entries d pg_service e2 s2 x2 t1 = (t2, es2)"
    and "\<And>k. events_of k (published es1) = [] \<or> events_of k (published es2) = []"
  obtains r ls where "orderly_run d (idle_service t) ls r" "\<forall>s. sr_busy r s = []"
    "served ls = [(e1, s1, x1), (e2, s2, x2)]" "sr_table r = t2"
    "map snd (sr_sent r) = es2 @ es1"
proof -
  let ?r0 = "idle_service t"
  let ?r1 = "?r0\<lparr>sr_table := t1, sr_busy := (sr_busy ?r0)(s1 := es1)\<rparr>"
  let ?r2 = "?r1\<lparr>sr_table := t2, sr_busy := (sr_busy ?r1)(s2 := es2)\<rparr>"
  let ?r3 = "?r2\<lparr>sr_busy := (sr_busy ?r2)(s2 := []), sr_sent := sr_sent ?r2 @ map (Pair s2) es2\<rparr>"
  let ?r4 = "?r3\<lparr>sr_busy := (sr_busy ?r3)(s1 := []), sr_sent := sr_sent ?r3 @ map (Pair s1) es1\<rparr>"
  have "orderly_run d ?r0 ([] @ [Serve e1 s1 x1]) ?r1"
    by (intro orderly_run.snoc [OF orderly_run.nil] service_step.serve)
      (simp_all add: idle_service_def del1)
  then have run2: "orderly_run d ?r0 (([] @ [Serve e1 s1 x1]) @ [Serve e2 s2 x2]) ?r2"
  proof (rule orderly_run.snoc)
    show "orderly d ?r1 (Serve e2 s2 x2)"
      using del2 assms(4) by (auto simp: idle_service_def)
    show "service_step d ?r1 (Serve e2 s2 x2) ?r2"
      using del2 assms(1) by (intro service_step.serve) (simp_all add: idle_service_def)
  qed
  have "service_run d ?r2 (replicate (length es2) (Send s2)) ?r3" by (rule send_all) simp
  note run3 = orderly_sends [OF this run2 served_sends]
  have "service_run d ?r3 (replicate (length es1) (Send s1)) ?r4"
    using assms(1) by (intro send_all) simp
  note run = orderly_sends [OF this run3 served_sends]
  show thesis by (rule that [OF run]) (simp_all add: idle_service_def comp_def)
qed

subsection \<open>Properties\<close>

text \<open>
  C40. A handler makes one call of the repository for a message that decodes and passes validation, and
  none for any other, whatever the repository answers; counting the calls changes nothing else.
\<close>

theorem one_repository_call_per_message:
  "deliver handler_entries d (NewService (counted repo)) c s data (n, db) =
     (case deliver handler_entries d (NewService repo) c s data db of
        (db', es) \<Rightarrow>
          ((case decoded s data of
              None \<Rightarrow> n
            | Some oper \<Rightarrow> if accepted d oper then Suc n else n,
            db'), es))"
  by (rule deliver_counted)

text \<open>
  C5. Handlers at the same time keep the caches in step as long as they are orderly: no handler
  changes a user while another one has still to send its event of the same user. Then, when all of
  them are idle, the table is the one that serving the messages one after the other leaves, and
  the events, in the order they were published in, turn the view of the old table into the view of
  this one. Events of different users may overtake each other freely. The next property shows that
  the condition is needed.
\<close>

theorem orderly_handlers_keep_cache:
  assumes "documented d is_email is_uuid" and "table_ok t"
    and "orderly_run d (idle_service t) ls r" and "list_all (benign d) (served ls)"
    and "\<forall>s. sr_busy r s = []"
  shows "sr_table r = fst (serve_messages d (served ls) t)
    \<and> fold apply_msg (published (map snd (sr_sent r))) (client_view d (pg_users t))
      = client_view d (pg_users (sr_table r))"
proof -
  let ?evs = "snd (serve_messages d (served ls) t)" and ?sent = "published (map snd (sr_sent r))"
  have tab: "sr_table r = fst (serve_messages d (served ls) t)"
    using orderly_run_events [OF assms(3) refl] by blast
  have "events_of k ?sent = events_of k ?evs" for k
    using orderly_run_events [OF assms(3) refl] assms(5) by fastforce
  then have "fold apply_msg ?sent c = fold apply_msg ?evs c" for c
    by (rule fold_apply_msg_cong)
  moreover have "fold apply_msg ?evs (client_view d (pg_users t)) = client_view d (pg_users (sr_table r))"
    unfolding tab by (rule serve_messages_view [OF assms(1,2,4)]) (simp add: prod_eq_iff)
  ultimately show ?thesis using tab by simp
qed

theorem orderly_handlers_keep_cache_witness:
  "\<exists>ls r. orderly_run plain_deps (idle_service [ada_row]) ls r
    \<and> map (fst \<circ> snd) (served ls) = [SubjectCreateUser, SubjectDeleteUser]
    \<and> map fst (published (map snd (sr_sent r))) = [SubjectUserDeleted, SubjectUserCreated]
    \<and> fold apply_msg (published (map snd (sr_sent r))) (client_view plain_deps (pg_users [ada_row]))
      = client_view plain_deps (pg_users (sr_table r))"
proof -
  let ?q = "ada_request\<lparr>cr_Email := ''ada@example.com''\<rparr>"
  let ?c = "Some (enc_create_request ?q)" and ?x = "Some (enc_id_request \<lparr>ir_UserID = ''x''\<rparr>)"
  let ?serve1 = "service_answer plain_deps pg_service (plain_env 2) (CreateOp ?q) [ada_row]"
  let ?u = "toDomainUser (last (fst ?serve1))"
  let ?serve2 = "service_answer plain_deps pg_service (plain_env 3) (DeleteOp ''x'') (fst ?serve1)"
  let ?es1 = "op_effects plain_deps (CreateOp ?q) (UserAnswer ?u)"
  let ?es2 = "op_effects plain_deps (DeleteOp ''x'') Done"
  have "accepted plain_deps (CreateOp ?q)" by code_simp
  moreover have "op_texts (plain_env 2) (CreateOp ?q)"
    by (simp add: texts_ok_def created_user_def new_user_def ada_request_def status_defs)
  ultimately have acc: "accepted plain_deps (CreateOp ?q)" "op_texts (plain_env 2) (CreateOp ?q)" .
  have "?serve1 = (fst ?serve1, UserAnswer ?u)" "?serve2 = (fst ?serve2, Done)" "u_UserId ?u = 2"
    by code_simp+
  note ans = this(1,2) and u = this(3)
  have dec: "decoded SubjectCreateUser ?c = Some (CreateOp ?q)"
    "decoded SubjectDeleteUser ?x = Some (DeleteOp ''x'')"
    by (simp_all add: wire_simps)
  have del1: "deliver handler_entries plain_deps pg_service (plain_env 2) SubjectCreateUser ?c [ada_row]
      = (fst ?serve1, ?es1)"
    using deliver_answers [OF dec(1) acc(1), of pg_service "plain_env 2" "[ada_row]"]
    by (subst (asm) ans(1)) simp
  have del2: "deliver handler_entries plain_deps pg_service (plain_env 3) SubjectDeleteUser ?x (fst ?serve1)
      = (fst ?serve2, ?es2)"
    using deliver_answers [OF dec(2) plain_accepted(4), of pg_service "plain_env 3" "fst ?serve1"]
    by (subst (asm) ans(2)) simp
  have ev: "published ?es1 = [(SubjectUserCreated, enc_user_event \<lparr>evt_User = toDTO plain_deps ?u\<rparr>)]"
      "published ?es2 = [(SubjectUserDeleted, enc_deleted_event \<lparr>evt_UserID = ''x''\<rparr>)]"
    by (simp_all add: published_op_effects)
  have "hd_uuid_string plain_deps 2 = ''xx''" by code_simp
  then have "dto_UserID (toDTO plain_deps v) = ''xx''" if "u_UserId v = 2" for v
    using that by (simp add: toDTO_def)
  note this [OF u]
  then have "events_of k (published ?es1) = [] \<or> events_of k (published ?es2) = []" for k
    unfolding ev by (auto simp: cache_simps)
  then obtain r ls where run: "orderly_run plain_deps (idle_service [ada_row]) ls r"
    "\<forall>s. sr_busy r s = []" "map snd (sr_sent r) = ?es2 @ ?es1" "served ls
      = [(plain_env 2, SubjectCreateUser, ?c), (plain_env 3, SubjectDeleteUser, ?x)]"
    by (rule orderly_pair [OF _ del1 del2, rotated]) (auto simp: subject_defs)
  have "list_all (benign plain_deps) (served ls)"
    unfolding run(4) using acc(2) dec by (simp add: benign_def del: op_texts.simps(1) decoded_simps)
  from orderly_handlers_keep_cache [OF plain_deps_documented ada_row_ok run(1) this run(2)]
  show ?thesis using run ev by (intro exI [of _ ls] exI [of _ r]) simp
qed

text \<open>
  C6. The order of the events need not be that of the changes: an update and the deletion of the
  same user, handled at the same time, can be published the other way round. The table then has
  no such user, all handlers are done, and a cache in step that gets the events in the order of
  their publication keeps the user.
\<close>

theorem publish_race_leaves_cache_stale:
  assumes up: "good_call d is_email is_uuid e t (UpdateOp q)"
    and i: "hd_uuid_parse d (ur_UserID q) = Some i" "hd_uuid_string d i = ur_UserID q"
    and m: "pg_users t i = Some old" "email_free (pg_users t) i (ur_Email q)"
    and del: "pg_good e'" "accepted d (DeleteOp (ur_UserID q))"
  shows "\<exists>ls r v. service_run d (idle_service t) ls r \<and> (\<forall>s. sr_busy r s = [])
    \<and> served ls = [(e, SubjectUpdateUser, Some (enc_update_request q)),
        (e', SubjectDeleteUser, Some (enc_id_request \<lparr>ir_UserID = ur_UserID q\<rparr>))]
    \<and> pg_users (sr_table r) i = None \<and> same_data v (update_user i q)
    \<and> fold apply_msg (published (map snd (sr_sent r))) (client_view d (pg_users t)) (ur_UserID q)
        = Some (toDTO d v)"
proof -
  let ?U = "SubjectUpdateUser" and ?D = "SubjectDeleteUser" and ?s = "ur_UserID q"
  let ?r0 = "idle_service t"
  have r0: "sr_table ?r0 = t" "sr_busy ?r0 = (\<lambda>s. [])" "sr_sent ?r0 = []"
    by (simp_all add: idle_service_def)
  have good0: "good_call d is_email is_uuid e (sr_table ?r0) (UpdateOp q)"
    and idle0: "sr_busy ?r0 (op_subject (UpdateOp q)) = []"
    using up by (simp_all add: r0 del: accepted.simps op_texts.simps)
  obtain a t1 where step: "service_step d ?r0 (Serve e (op_subject (UpdateOp q)) (Some (op_payload (UpdateOp q))))
      (?r0\<lparr>sr_table := t1, sr_busy := (sr_busy ?r0)(op_subject (UpdateOp q) := op_effects d (UpdateOp q) a)\<rparr>)"
    and s: "serve (hd_uuid_parse d) (pg_fresh e (sr_table ?r0)) (pg_users (sr_table ?r0)) (UpdateOp q) a
      (pg_users t1)"
    and ok1: "table_ok t1"
    by (rule serve_step [OF good0 idle0])
  note step1 = step [unfolded op_subject.simps op_payload.simps] and s1 = s [unfolded r0]
  obtain v where a: "a = UserAnswer v" and v: "same_data v (update_user i q)" "u_UserId v = i"
    and m1: "pg_users t1 = (pg_users t)(i \<mapsto> v)"
    using s1 i m by (auto elim!: serve_UpdateE)
  let ?eu = "op_effects d (UpdateOp q) a"
  let ?r1 = "?r0\<lparr>sr_table := t1, sr_busy := (sr_busy ?r0)(?U := ?eu)\<rparr>"
  have good1: "good_call d is_email is_uuid e' (sr_table ?r1) (DeleteOp ?s)"
    and idle1: "sr_busy ?r1 (op_subject (DeleteOp ?s)) = []"
    using up del ok1 by (simp_all add: good_call_def r0 subject_defs del: accepted.simps)
  obtain b t2 where step': "service_step d ?r1 (Serve e' (op_subject (DeleteOp ?s)) (Some (op_payload (DeleteOp ?s))))
      (?r1\<lparr>sr_table := t2, sr_busy := (sr_busy ?r1)(op_subject (DeleteOp ?s) := op_effects d (DeleteOp ?s) b)\<rparr>)"
    and s': "serve (hd_uuid_parse d) (pg_fresh e' (sr_table ?r1)) (pg_users (sr_table ?r1)) (DeleteOp ?s) b
      (pg_users t2)"
    by (rule serve_step [OF good1 idle1])
  note step2 = step' [unfolded op_subject.simps op_payload.simps]
  have s2: "serve (hd_uuid_parse d) (pg_fresh e' t1) (pg_users t1) (DeleteOp ?s) b (pg_users t2)"
    using s' by simp
  have b: "b = Done" and m2: "pg_users t2 i = None" using s2 i m1 by (auto elim!: serve_DeleteE)
  let ?ed = "op_effects d (DeleteOp ?s) b"
  let ?r2 = "?r1\<lparr>sr_table := t2, sr_busy := (sr_busy ?r1)(?D := ?ed)\<rparr>"
  let ?r3 = "?r2\<lparr>sr_busy := (sr_busy ?r2)(?D := []), sr_sent := sr_sent ?r2 @ map (Pair ?D) ?ed\<rparr>"
  let ?r4 = "?r3\<lparr>sr_busy := (sr_busy ?r3)(?U := []), sr_sent := sr_sent ?r3 @ map (Pair ?U) ?eu\<rparr>"
  have "service_run d ?r2 (replicate (length ?ed) (Send ?D)) ?r3" by (rule send_all) simp
  moreover have "service_run d ?r3 (replicate (length ?eu) (Send ?U)) ?r4"
    by (rule send_all) (simp add: subject_defs)
  ultimately have run: "service_run d ?r0 (Serve e ?U (Some (enc_update_request q))
      # Serve e' ?D (Some (enc_id_request \<lparr>ir_UserID = ?s\<rparr>))
      # replicate (length ?ed) (Send ?D) @ replicate (length ?eu) (Send ?U)) ?r4"
    by (intro service_run_Cons [OF step1] service_run_Cons [OF step2]) (rule service_run_append)
  have quiet: "served (replicate n (Send s)) = []" for n s by (induction n) simp_all
  have "published (map snd (sr_sent ?r4)) = [(SubjectUserDeleted, enc_deleted_event \<lparr>evt_UserID = ?s\<rparr>),
      (SubjectUserUpdated, enc_user_event \<lparr>evt_User = toDTO d v\<rparr>)]"
    using r0 a b by (simp add: op_effects_simps comp_def user_reply_def)
  moreover have "dto_UserID (toDTO d v) = ?s" using v i by (simp add: toDTO_def)
  ultimately have "fold apply_msg (published (map snd (sr_sent ?r4))) (client_view d (pg_users t)) ?s
      = Some (toDTO d v)"
    by (simp add: cache_simps cache_set_def)
  moreover have "\<forall>s. sr_busy ?r4 s = []" using r0 by simp
  ultimately show ?thesis using run m2 v(1) quiet
    by (intro exI [of _ ?r4] exI [of _ v] exI) auto
qed

theorem publish_race_leaves_cache_stale_witness:
  "\<exists>ls r. service_run plain_deps (idle_service [ada_row]) ls r \<and> pg_users (sr_table r) 1 = None
    \<and> fold apply_msg (published (map snd (sr_sent r)))
        (client_view plain_deps (pg_users [ada_row])) ''x'' \<noteq> None"
proof -
  have up: "good_call plain_deps plain_email plain_uuid (plain_env 2) [ada_row]
      (UpdateOp (ada_update ''Ada''))"
    by (simp add: good_call_def del: accepted.simps op_texts.simps)
  have x: "ur_UserID (ada_update ''Ada'') = ''x''" by (simp add: ada_update_def)
  have i: "hd_uuid_parse plain_deps (ur_UserID (ada_update ''Ada'')) = Some 1"
      "hd_uuid_string plain_deps 1 = ur_UserID (ada_update ''Ada'')"
    by (simp_all add: x plain_deps_def)
  have m: "pg_users [ada_row] 1 = Some (toDomainUser ada_row)"
      "email_free (pg_users [ada_row]) 1 (ur_Email (ada_update ''Ada''))"
    by (auto simp: pg_users_ada email_free_def split: if_splits)
  have acc: "accepted plain_deps (DeleteOp (ur_UserID (ada_update ''Ada'')))"
    by (simp add: x del: accepted.simps)
  have "pg_good (plain_env 3)" by simp
  from publish_race_leaves_cache_stale [OF up i m this acc] obtain ls r v
    where "service_run plain_deps (idle_service [ada_row]) ls r" "pg_users (sr_table r) 1 = None"
      "fold apply_msg (published (map snd (sr_sent r))) (client_view plain_deps (pg_users [ada_row])) ''x''
        = Some (toDTO plain_deps v)"
    unfolding x by blast
  then show ?thesis by auto
qed

end
