(* ===== verification/Ws_Forwarding.thy ===== *)
theory Ws_Forwarding
  imports Ws_Requests "HOL-Library.Multiset"
begin

text \<open>
  Events on their way to the WebSocket clients (\<open>wshandler/subscribe.go\<close>, \<open>hub.go\<close>, and the
  callbacks of \<open>userclient.Subscribe\<close>). Every \<open>user.subscribe\<close> makes a channel of its own for
  \<open>sendBufferSize\<close> events and a NATS subscription that offers the events to it; a goroutine takes
  them from the channel and hands them to \<open>Hub.Broadcast\<close>, which offers them to the hub's channel
  of the same size; the hub takes them from there. Both offers drop what does not fit. The steps of
  the forwarders, of the hub and of the clients interleave in any order.
\<close>

text \<open>
  \<open>fw_chans\<close> is the \<open>eventCh\<close> of each forwarder, \<open>fw_out\<close> what the write pumps have written to the
  connections.
\<close>

record fw_state =
  fw_chans :: "event list list"
  fw_hub :: hub_state
  fw_out :: "nat \<Rightarrow> json list"

definition fw_start :: "'s ws_world \<Rightarrow> fw_state" where
  "fw_start w =
     \<lparr>fw_chans = replicate (ww_forwarders w) [], fw_hub = ww_hub w, fw_out = (\<lambda>i. [])\<rparr>"

text \<open>\<open>Arrive\<close> is a callback of forwarder \<open>j\<close>'s subscription, \<open>HubDoes\<close> a step of hub or client.\<close>

datatype fw_label =
    Arrive nat string "json option"
  | ForwardNext nat
  | HubDoes ws_label

definition fw_arrive :: "nat \<Rightarrow> string \<Rightarrow> json option \<Rightarrow> fw_state \<Rightarrow> fw_state" where
  "fw_arrive j s data st =
     (case event_of_msg s data of
        None \<Rightarrow> st
      | Some e \<Rightarrow>
          st\<lparr>fw_chans := (fw_chans st)[j := fst (offer sendBufferSize e (fw_chans st ! j))]\<rparr>)"

text \<open>The body of the forwarder's loop.\<close>

definition fw_broadcast :: "event \<Rightarrow> hub_state \<Rightarrow> hub_state outcome" where
  "fw_broadcast e h =
     (case broadcast_of_event e of None \<Rightarrow> Return h | Some (t, resp) \<Rightarrow> Broadcast t resp h)"

definition written_out :: "ws_label \<Rightarrow> hub_state \<Rightarrow> (nat \<Rightarrow> json list) \<Rightarrow> nat \<Rightarrow> json list" where
  "written_out l h out =
     (case l of
        WriteOut k \<Rightarrow> (case snd (write_step k h) of Frame j \<Rightarrow> out(k := out k @ [j]) | _ \<Rightarrow> out)
      | _ \<Rightarrow> out)"

fun fw_exec :: "ws_config \<Rightarrow> fw_label \<Rightarrow> fw_state \<Rightarrow> fw_state option outcome" where
  "fw_exec cfg (Arrive j s data) st =
     Return (if j < length (fw_chans st) then Some (fw_arrive j s data st) else None)"
| "fw_exec cfg (ForwardNext j) st =
     (if j < length (fw_chans st)
      then case fw_chans st ! j of
             [] \<Rightarrow> Return None
           | e # es \<Rightarrow>
               map_outcome (\<lambda>h. Some (st\<lparr>fw_chans := (fw_chans st)[j := es], fw_hub := h\<rparr>))
                 (fw_broadcast e (fw_hub st))
      else Return None)"
| "fw_exec cfg (HubDoes l) st =
     map_outcome
       (map_option (\<lambda>h. st\<lparr>fw_hub := h, fw_out := written_out l (fw_hub st) (fw_out st)\<rparr>))
       (ws_exec cfg l (fw_hub st))"

inductive fw_step :: "ws_config \<Rightarrow> fw_state \<Rightarrow> fw_label \<Rightarrow> fw_state \<Rightarrow> bool" for cfg where
  "fw_exec cfg l st = Return (Some st') \<Longrightarrow> fw_step cfg st l st'"

inductive fw_run :: "ws_config \<Rightarrow> fw_state \<Rightarrow> fw_label list \<Rightarrow> fw_state \<Rightarrow> bool" for cfg where
  nil: "fw_run cfg st [] st"
| snoc: "\<lbrakk>fw_run cfg st ls st'; fw_step cfg st' l st''\<rbrakk> \<Longrightarrow> fw_run cfg st (ls @ [l]) st''"

inductive_simps fw_step_simps: "fw_step cfg st l st'"

text \<open>Nothing is under way: every forwarder's channel and the hub's are empty.\<close>

definition fw_idle :: "fw_state \<Rightarrow> bool" where
  "fw_idle st \<longleftrightarrow> concat (fw_chans st) = [] \<and> ch_buf (hs_broadcast (fw_hub st)) = []"

subsection \<open>What arrives and what is under way\<close>

fun arrivals :: "fw_label list \<Rightarrow> (nat \<times> string \<times> json option) list" where
  "arrivals [] = []"
| "arrivals (Arrive j s data # ls) = (j, s, data) # arrivals ls"
| "arrivals (_ # ls) = arrivals ls"

lemma arrivals_append [simp]: "arrivals (ls @ ms) = arrivals ls @ arrivals ms"
  by (induction ls rule: arrivals.induct) simp_all

text \<open>The response that a message of an event becomes, if it becomes one.\<close>

definition message_response :: "string \<times> json option \<Rightarrow> ws_response option" where
  "message_response m =
     map_option snd (Option.bind (event_of_msg (fst m) (snd m)) broadcast_of_event)"

definition responses :: "(string \<times> json option) list \<Rightarrow> ws_response multiset" where
  "responses ms = mset (List.map_filter message_response ms)"

lemma responses_simps [simp]:
  "responses [] = {#}"
  "responses (m # ms) =
     (case message_response m of None \<Rightarrow> {#} | Some r \<Rightarrow> {#r#}) + responses ms"
  "responses (ms @ ms') = responses ms + responses ms'"
proof -
  show cons: "responses (m # ms) =
      (case message_response m of None \<Rightarrow> {#} | Some r \<Rightarrow> {#r#}) + responses ms" for m ms
    by (simp add: responses_def split: option.split)
  show nil: "responses [] = {#}" by (simp add: responses_def)
  show "responses (ms @ ms') = responses ms + responses ms'"
    by (induction ms) (simp_all add: cons nil)
qed

lemma responses_perm: "mset ms = mset ms' \<Longrightarrow> responses ms = responses ms'"
proof -
  have "responses ms = image_mset the (filter_mset (\<lambda>r. r \<noteq> None) (image_mset message_response (mset ms)))"
    for ms
    by (induction ms) (auto split: option.split)
  then show "mset ms = mset ms' \<Longrightarrow> responses ms = responses ms'" by simp
qed

text \<open>Each of \<open>k\<close> forwarders gets each of the messages once.\<close>

lemma responses_product:
  "responses (map snd (List.product xs ms)) = repeat_mset (length xs) (responses ms)"
  by (induction xs) (simp_all add: comp_def)

lemma size_responses: "size (responses ms) \<le> length ms"
  by (induction ms) (auto split: option.split)

definition event_responses :: "event list \<Rightarrow> ws_response multiset" where
  "event_responses es = mset (map (snd \<circ> the \<circ> broadcast_of_event) es)"

definition pending :: "fw_state \<Rightarrow> ws_response multiset" where
  "pending st =
     event_responses (concat (fw_chans st)) + mset (map snd (ch_buf (hs_broadcast (fw_hub st))))"

lemma event_responses_simps [simp]:
  "event_responses [] = {#}"
  "event_responses (e # es) = add_mset (snd (the (broadcast_of_event e))) (event_responses es)"
  "event_responses (es @ fs) = event_responses es + event_responses fs"
  by (simp_all add: event_responses_def)

lemma concat_update:
  "j < length xss \<Longrightarrow> event_responses (concat (xss[j := ys])) + event_responses (xss ! j)
     = event_responses (concat xss) + event_responses ys"
proof (induction xss arbitrary: j)
  case (Cons xs xss)
  then show ?case by (cases j) (auto simp: ac_simps)
qed simp

lemma size_event_responses [simp]: "size (event_responses es) = length es"
  by (simp add: event_responses_def)

lemma length_le_concat: "j < length xss \<Longrightarrow> length (xss ! j) \<le> length (concat xss)"
proof (induction xss arbitrary: j)
  case (Cons xs xss)
  then show ?case by (cases j) (auto simp: trans_le_add2)
qed simp

definition forwardable :: "event list \<Rightarrow> bool" where
  "forwardable es \<longleftrightarrow> (\<forall>e\<in>set es. broadcast_of_event e \<noteq> None)"

lemma forwardable_simps [simp]:
  "forwardable []"
  "forwardable (e # es) \<longleftrightarrow> (\<exists>b. broadcast_of_event e = Some b) \<and> forwardable es"
  "forwardable (es @ fs) \<longleftrightarrow> forwardable es \<and> forwardable fs"
  by (auto simp: forwardable_def)

lemma forwardable_nth: "\<lbrakk>forwardable (concat xss); j < length xss\<rbrakk> \<Longrightarrow> forwardable (xss ! j)"
proof (induction xss arbitrary: j)
  case (Cons xs xss)
  then show ?case by (cases j) simp_all
qed simp

lemma forwardable_update:
  "\<lbrakk>forwardable (concat xss); forwardable ys\<rbrakk> \<Longrightarrow> forwardable (concat (xss[j := ys]))"
proof (induction xss arbitrary: j)
  case (Cons xs xss)
  then show ?case by (cases j) simp_all
qed simp

lemma event_of_msg_broadcast:
  assumes "event_of_msg s data = Some e"
  shows "\<exists>b. broadcast_of_event e = Some b" and "message_response (s, data) = map_option snd (broadcast_of_event e)"
  using assms
  by (auto simp: event_of_msg_def broadcast_of_event_def message_response_def split: if_splits)

subsection \<open>What every interleaving keeps\<close>

text \<open>
  For a registered client \<open>i\<close> that is subscribed to the three topics: what was written to its
  connection and what is in its buffer is the old content followed by responses that, with those
  still under way, are exactly the ones that arrived.
\<close>

definition on_the_way :: "ws_config \<Rightarrow> nat \<Rightarrow> json list \<Rightarrow> ws_response multiset \<Rightarrow> fw_state \<Rightarrow> bool" where
  "on_the_way cfg i old arrived st \<longleftrightarrow>
     hub_ok cfg (fw_hub st) \<and> i \<in> hs_registered (fw_hub st)
     \<and> forwardable (concat (fw_chans st))
     \<and> (\<forall>b\<in>set (ch_buf (hs_broadcast (fw_hub st))). fst b \<in> set ws_eventTypes)
     \<and> (\<exists>cl new. hs_clients (fw_hub st) i = Some cl \<and> set ws_eventTypes \<subseteq> wc_subscriptions cl
          \<and> fw_out st i @ map enc_ws_response (ch_buf (wc_send cl)) = old @ map enc_ws_response new
          \<and> mset new + pending st = arrived)"

lemma on_the_wayE:
  assumes "on_the_way cfg i old arrived st"
  obtains cl new where "hs_clients (fw_hub st) i = Some cl" "set ws_eventTypes \<subseteq> wc_subscriptions cl"
    "fw_out st i @ map enc_ws_response (ch_buf (wc_send cl)) = old @ map enc_ws_response new"
    "mset new + pending st = arrived"
  using assms unfolding on_the_way_def by blast

lemma on_the_wayD:
  assumes "on_the_way cfg i old arrived st"
  shows "hub_ok cfg (fw_hub st)" "i \<in> hs_registered (fw_hub st)" "forwardable (concat (fw_chans st))"
    "\<forall>b\<in>set (ch_buf (hs_broadcast (fw_hub st))). fst b \<in> set ws_eventTypes"
  using assms unfolding on_the_way_def by blast+

lemma on_the_wayI:
  assumes "hub_ok cfg (fw_hub st)" "i \<in> hs_registered (fw_hub st)"
    "hs_clients (fw_hub st) i = Some cl" "set ws_eventTypes \<subseteq> wc_subscriptions cl"
    "forwardable (concat (fw_chans st))"
    "\<forall>b\<in>set (ch_buf (hs_broadcast (fw_hub st))). fst b \<in> set ws_eventTypes"
    "fw_out st i @ map enc_ws_response (ch_buf (wc_send cl)) = old @ map enc_ws_response new"
    "mset new + pending st = arrived"
  shows "on_the_way cfg i old arrived st"
  using assms unfolding on_the_way_def by blast

text \<open>The steps that do not end the client's registration or its subscriptions, nor answer it.\<close>

fun undisturbed :: "nat \<Rightarrow> fw_label \<Rightarrow> bool" where
  "undisturbed i (HubDoes (Unregister j)) = (j \<noteq> i)"
| "undisturbed i (HubDoes (UnsubscribeFrom j t)) = (j \<noteq> i)"
| "undisturbed i (HubDoes (Respond j resp)) = (j \<noteq> i)"
| "undisturbed i (HubDoes (Announce t resp)) = False"
| "undisturbed i _ = True"

lemma size_le_arrived: "on_the_way cfg i old arrived st \<Longrightarrow> size (pending st) \<le> size arrived"
  by (auto simp: on_the_way_def)

lemma arrive_on_the_way:
  assumes inv: "on_the_way cfg i old arrived st" and j: "j < length (fw_chans st)"
    and room: "size (arrived + responses [(s, data)]) \<le> sendBufferSize"
  shows "on_the_way cfg i old (arrived + responses [(s, data)]) (fw_arrive j s data st)"
proof (cases "event_of_msg s data")
  case None
  then show ?thesis using inv by (simp add: fw_arrive_def message_response_def)
next
  case (Some e)
  obtain b where b: "broadcast_of_event e = Some b" "message_response (s, data) = Some (snd b)"
    using event_of_msg_broadcast [OF Some] by auto
  let ?xs = "fw_chans st ! j"
  have "length ?xs \<le> size (pending st)"
    using length_le_concat [OF j] by (simp add: pending_def)
  then have "length ?xs < sendBufferSize"
    using size_le_arrived [OF inv] room b by simp
  then have st': "fw_arrive j s data st = st\<lparr>fw_chans := (fw_chans st)[j := ?xs @ [e]]\<rparr>"
    using Some by (simp add: fw_arrive_def offer_def)
  have "pending (fw_arrive j s data st) = pending st + {#snd b#}"
    using concat_update [OF j, of "?xs @ [e]"] b by (simp add: st' pending_def)
  moreover obtain cl new where "hs_clients (fw_hub st) i = Some cl" "set ws_eventTypes \<subseteq> wc_subscriptions cl"
    "fw_out st i @ map enc_ws_response (ch_buf (wc_send cl)) = old @ map enc_ws_response new"
    "mset new + pending st = arrived"
    using inv by (rule on_the_wayE)
  moreover have "forwardable (concat (fw_chans (fw_arrive j s data st)))"
    using inv b forwardable_nth [of "fw_chans st" j] j
    by (simp add: on_the_way_def st' forwardable_update)
  ultimately show ?thesis
    using inv b by (intro on_the_wayI [where cl = cl and new = new]) (simp_all add: on_the_way_def st')
qed

lemma queued_types:
  assumes "on_the_way cfg i old arrived st" and "fw_chans st ! j = e # es" and "j < length (fw_chans st)"
  obtains t resp where "broadcast_of_event e = Some (t, resp)" "t \<in> set ws_eventTypes"
proof -
  obtain t resp where "broadcast_of_event e = Some (t, resp)"
    using assms(1,2) forwardable_nth [OF _ assms(3)] by (auto simp: on_the_way_def)
  with that broadcast_event_type show thesis by blast
qed

lemma forward_on_the_way:
  assumes inv: "on_the_way cfg i old arrived st" and j: "j < length (fw_chans st)"
    and e: "fw_chans st ! j = e # es" and h: "fw_broadcast e (fw_hub st) = Return h"
    and room: "size arrived \<le> sendBufferSize"
  shows "on_the_way cfg i old arrived (st\<lparr>fw_chans := (fw_chans st)[j := es], fw_hub := h\<rparr>)"
proof -
  let ?q = "hs_broadcast (fw_hub st)" and ?st = "st\<lparr>fw_chans := (fw_chans st)[j := es], fw_hub := h\<rparr>"
  obtain t resp where b: "broadcast_of_event e = Some (t, resp)" "t \<in> set ws_eventTypes"
    using inv e j by (rule queued_types)
  have ok: "hub_ok cfg (fw_hub st)" using inv by (simp add: on_the_way_def)
  have "0 < length (concat (fw_chans st))"
    using length_le_concat [OF j] e by (simp only: length_Cons)
  then have "length (ch_buf ?q) < size (pending st)" by (simp only: pending_def size_union
      size_event_responses size_mset length_map less_add_same_cancel2)
  then have "length (ch_buf ?q) < ch_cap ?q" and open_q: "\<not> ch_closed ?q"
    using size_le_arrived [OF inv] room ok by (simp_all add: hub_ok_def chan_ok_def)
  then have h': "h = (fw_hub st)\<lparr>hs_broadcast := ?q\<lparr>ch_buf := ch_buf ?q @ [(t, resp)]\<rparr>\<rparr>"
    using h b by (simp add: fw_broadcast_def Broadcast_def ws_simps)
  have "hub_ok cfg h"
    using Broadcast_ok [OF ok, of t resp] h b by (simp add: fw_broadcast_def)
  moreover have "pending ?st = pending st"
    using concat_update [OF j, of es] b e by (simp add: pending_def h')
  moreover have "forwardable (concat (fw_chans ?st))"
    using inv e forwardable_nth [OF _ j] by (simp add: on_the_way_def forwardable_update)
  moreover obtain cl new where "hs_clients (fw_hub st) i = Some cl" "set ws_eventTypes \<subseteq> wc_subscriptions cl"
    "fw_out st i @ map enc_ws_response (ch_buf (wc_send cl)) = old @ map enc_ws_response new"
    "mset new + pending st = arrived"
    using inv by (rule on_the_wayE)
  ultimately show ?thesis
    using inv b(2) by (intro on_the_wayI [where cl = cl and new = new]) (auto simp: on_the_way_def h')
qed

text \<open>Steps of hub and clients: the client's own part, and the hub's channel.\<close>

fun quiet :: "nat \<Rightarrow> ws_label \<Rightarrow> bool" where
  "quiet i (HubTakes it) = False"
| "quiet i (WriteOut j) = (j \<noteq> i)"
| "quiet i l = undisturbed i (HubDoes l)"

lemma quiet_step:
  assumes "ws_exec cfg l h = Return (Some h')" and "quiet i l"
    and "i \<in> hs_registered h" and "hs_clients h i = Some cl"
  shows "i \<in> hs_registered h' \<and> hs_broadcast h' = hs_broadcast h
    \<and> (\<exists>cl'. hs_clients h' i = Some cl' \<and> wc_send cl' = wc_send cl
        \<and> wc_subscriptions cl \<subseteq> wc_subscriptions cl')"
proof (cases l)
  case (Connect j)
  then show ?thesis using assms by (auto simp: ws_simps split: if_splits)
next
  case (Register j)
  then show ?thesis using assms by (auto simp: hub_register_def split: option.splits if_splits)
next
  case (Unregister j)
  then show ?thesis
    using assms by (auto simp: hub_unregister_def hub_drop_def ws_simps
        split: option.splits outcome.splits if_splits)
next
  case (Respond j resp)
  then show ?thesis
    using assms by (auto simp: client_send_def ws_simps split: option.splits outcome.splits)
next
  case (SubscribeTo j t)
  then show ?thesis using assms by (auto simp: ws_simps ws_subscribe_def)
next
  case (UnsubscribeFrom j t)
  then show ?thesis using assms by (auto simp: ws_simps)
next
  case (WriteOut j)
  then show ?thesis
    using assms by (auto simp: write_step_def ws_simps split: option.splits list.splits)
qed (use assms in simp_all)

lemma quiet_on_the_way:
  assumes inv: "on_the_way cfg i old arrived st" and q: "quiet i l"
    and e: "ws_exec cfg l (fw_hub st) = Return (Some h)"
  shows "on_the_way cfg i old arrived
    (st\<lparr>fw_hub := h, fw_out := written_out l (fw_hub st) (fw_out st)\<rparr>)"
proof -
  obtain cl new where cl: "hs_clients (fw_hub st) i = Some cl" "set ws_eventTypes \<subseteq> wc_subscriptions cl"
    "fw_out st i @ map enc_ws_response (ch_buf (wc_send cl)) = old @ map enc_ws_response new"
    "mset new + pending st = arrived"
    using inv by (rule on_the_wayE)
  note inv = on_the_wayD [OF inv]
  have "hub_ok cfg h" using e by (intro ws_step_ok [OF _ inv(1), of l]) (simp add: ws_step_simps)
  moreover have "written_out l (fw_hub st) (fw_out st) i = fw_out st i"
    using q by (cases l) (auto simp: written_out_def split: written.split)
  moreover obtain cl' where "hs_clients h i = Some cl'" "wc_send cl' = wc_send cl"
    "wc_subscriptions cl \<subseteq> wc_subscriptions cl'"
    using quiet_step [OF e q inv(2) cl(1)] by blast
  moreover have "i \<in> hs_registered h" and "hs_broadcast h = hs_broadcast (fw_hub st)"
    using quiet_step [OF e q inv(2) cl(1)] by blast+
  ultimately show ?thesis
    using inv(3,4) cl(2-4)
    by (intro on_the_wayI [where cl = cl' and new = new]) (simp_all add: pending_def order_trans)
qed

lemma write_on_the_way:
  assumes inv: "on_the_way cfg i old arrived st"
    and e: "ws_exec cfg (WriteOut i) (fw_hub st) = Return (Some h)"
  shows "on_the_way cfg i old arrived
    (st\<lparr>fw_hub := h, fw_out := written_out (WriteOut i) (fw_hub st) (fw_out st)\<rparr>)"
proof -
  obtain cl new where cl: "hs_clients (fw_hub st) i = Some cl" "set ws_eventTypes \<subseteq> wc_subscriptions cl"
    "fw_out st i @ map enc_ws_response (ch_buf (wc_send cl)) = old @ map enc_ws_response new"
    "mset new + pending st = arrived"
    using inv by (rule on_the_wayE)
  note inv' = on_the_wayD [OF inv]
  have ok: "hub_ok cfg h"
    using e by (intro ws_step_ok [OF _ inv'(1), of "WriteOut i"]) (simp add: ws_step_simps)
  have h: "h = fst (write_step i (fw_hub st))" using e by simp
  show ?thesis
  proof (cases "ch_buf (wc_send cl)")
    case Nil
    then have "h = fw_hub st" "written_out (WriteOut i) (fw_hub st) (fw_out st) = fw_out st"
      using cl(1) by (auto simp: h write_step_def written_out_def)
    then show ?thesis using inv by simp
  next
    case (Cons r rs)
    let ?cl = "cl\<lparr>wc_send := (wc_send cl)\<lparr>ch_buf := rs\<rparr>\<rparr>"
    have step: "write_step i (fw_hub st) = (set_client i ?cl (fw_hub st), Frame (enc_ws_response r))"
      using cl(1) Cons by (simp add: write_step_def)
    have "written_out (WriteOut i) (fw_hub st) (fw_out st) i @ map enc_ws_response rs
        = old @ map enc_ws_response new"
      using cl(3) Cons by (simp add: written_out_def step)
    then show ?thesis
      using inv'(2-4) cl(2,4) ok step
      by (intro on_the_wayI [where cl = ?cl and new = new]) (simp_all add: h pending_def ws_simps)
  qed
qed

lemma takes_on_the_way:
  assumes inv: "on_the_way cfg i old arrived st"
    and e: "ws_exec cfg (HubTakes it) (fw_hub st) = Return (Some h)"
    and room: "length old + size arrived \<le> wcfg_SendBufferSize cfg"
  shows "on_the_way cfg i old arrived
    (st\<lparr>fw_hub := h, fw_out := written_out (HubTakes it) (fw_hub st) (fw_out st)\<rparr>)"
proof -
  let ?h0 = "fw_hub st"
  obtain cl new where cl: "hs_clients ?h0 i = Some cl" "set ws_eventTypes \<subseteq> wc_subscriptions cl"
    "fw_out st i @ map enc_ws_response (ch_buf (wc_send cl)) = old @ map enc_ws_response new"
    "mset new + pending st = arrived"
    using inv by (rule on_the_wayE)
  note inv = on_the_wayD [OF inv]
  note ok = inv(1) and i = inv(2)
  obtain msg msgs where it: "hub_iteration_ok it ?h0" and q: "ch_buf (hs_broadcast ?h0) = msg # msgs"
    using e by (auto split: if_splits list.splits)
  let ?h1 = "?h0\<lparr>hs_broadcast := (hs_broadcast ?h0)\<lparr>ch_buf := msgs\<rparr>\<rparr>"
  have "hub_ok cfg ?h1" using ok q by (simp add: hub_ok_def ws_simps)
  then have "hub_broadcast msg it ?h1 = Return (broadcast_result msg (set it) ?h1)"
    using it by (intro hub_broadcast_result) (simp_all add: hub_iteration_ok_def)
  then have h: "h = broadcast_result msg (hs_registered ?h0) ?h1"
    using e it q by (simp add: hub_iteration_ok_def)
  have "length (fw_out st i) + length (ch_buf (wc_send cl)) = length old + length new"
    using arg_cong [OF cl(3), of length] by simp
  moreover have "length new < size arrived" using arg_cong [OF cl(4), of size] q by (simp add: pending_def)
  ultimately have "length (ch_buf (wc_send cl)) < ch_cap (wc_send cl)"
    using room hub_okD(2) [OF ok cl(1)] by (simp add: chan_ok_def)
  moreover have sub: "isSubscribed cl (fst msg)"
    using inv(4) q cl(2) by (auto simp: isSubscribed_def)
  ultimately have rec: "\<not> overflows msg cl"
    "received msg cl = cl\<lparr>wc_send := (wc_send cl)\<lparr>ch_buf := ch_buf (wc_send cl) @ [snd msg]\<rparr>\<rparr>"
    by (simp_all add: overflows_def received_def)
  have "hub_ok cfg h" using e by (intro ws_step_ok [OF _ ok, of "HubTakes it"]) (simp add: ws_step_simps)
  moreover have "mset (new @ [snd msg]) + pending (st\<lparr>fw_hub := h\<rparr>) = arrived"
    using q by (simp add: pending_def h ws_simps flip: cl(4))
  moreover have "fw_out st i @ map enc_ws_response (ch_buf (wc_send (received msg cl)))
      = old @ map enc_ws_response (new @ [snd msg])"
    using cl(3) by (simp add: rec)
  moreover have "i \<in> hs_registered h" "hs_clients h i = Some (received msg cl)"
    using i cl(1) rec(1) by (simp_all add: h ws_simps)
  moreover have "\<forall>b\<in>set (ch_buf (hs_broadcast h)). fst b \<in> set ws_eventTypes"
    using inv(4) q by (simp add: h ws_simps)
  moreover have "set ws_eventTypes \<subseteq> wc_subscriptions (received msg cl)"
    using cl(2) by (simp add: rec)
  ultimately show ?thesis
    using inv(3)
    by (intro on_the_wayI [where cl = "received msg cl" and new = "new @ [snd msg]"])
      (simp_all add: written_out_def pending_def)
qed

lemma fw_run_on_the_way:
  "\<lbrakk>fw_run cfg st ls st'; on_the_way cfg i old {#} st; list_all (undisturbed i) ls;
    size (responses (map snd (arrivals ls))) \<le> sendBufferSize;
    length old + size (responses (map snd (arrivals ls))) \<le> wcfg_SendBufferSize cfg\<rbrakk>
   \<Longrightarrow> on_the_way cfg i old (responses (map snd (arrivals ls))) st'"
proof (induction rule: fw_run.induct)
  case (snoc st ls st' l st'')
  let ?a = "responses (map snd (arrivals ls))"
  have IH: "on_the_way cfg i old ?a st'"
    using snoc.prems by (intro snoc.IH) simp_all
  have e: "fw_exec cfg l st' = Return (Some st'')" using snoc.hyps(2) by (simp add: fw_step_simps)
  show ?case
  proof (cases l)
    case (Arrive j s data)
    then show ?thesis
      using e snoc.prems arrive_on_the_way [OF IH, of j s data] by (simp split: if_splits)
  next
    case (ForwardNext j)
    then obtain ev es h where "j < length (fw_chans st')" "fw_chans st' ! j = ev # es"
      "fw_broadcast ev (fw_hub st') = Return h" "st'' = st'\<lparr>fw_chans := (fw_chans st')[j := es], fw_hub := h\<rparr>"
      using e by (auto simp: map_outcome_Return split: if_splits list.splits)
    then show ?thesis
      using ForwardNext snoc.prems forward_on_the_way [OF IH] by simp
  next
    case (HubDoes wl)
    then obtain h where h: "ws_exec cfg wl (fw_hub st') = Return (Some h)"
      and st'': "st'' = st'\<lparr>fw_hub := h, fw_out := written_out wl (fw_hub st') (fw_out st')\<rparr>"
      using e by (auto simp: map_outcome_Return dest: sym [of "Some _"])
    have "(\<exists>it. wl = HubTakes it) \<or> wl = WriteOut i \<or> quiet i wl"
      using HubDoes snoc.prems(2) by (cases wl) auto
    then have "on_the_way cfg i old ?a st''"
      using h snoc.prems unfolding st''
      by (auto intro: takes_on_the_way [OF IH] write_on_the_way [OF IH] quiet_on_the_way [OF IH] simp del: ws_exec.simps)
    then show ?thesis using HubDoes by simp
  qed
qed simp

subsection \<open>Working off what has arrived\<close>

text \<open>The steps that take an event one channel further.\<close>

fun fw_work :: "fw_label \<Rightarrow> bool" where
  "fw_work (ForwardNext j) = True"
| "fw_work (HubDoes (HubTakes it)) = True"
| "fw_work _ = False"

definition fw_load :: "fw_state \<Rightarrow> nat" where
  "fw_load st = 2 * length (concat (fw_chans st)) + length (ch_buf (hs_broadcast (fw_hub st)))"

lemma length_concat_update:
  fixes xss :: "event list list"
  shows "j < length xss \<Longrightarrow>
     length (concat (xss[j := ys])) + length (xss ! j) = length (concat xss) + length ys"
  using arg_cong [OF concat_update [of j xss ys], of size] by simp

lemma arrive_load:
  "j < length (fw_chans st) \<Longrightarrow> fw_load (fw_arrive j s data st) \<le> fw_load st + 2"
  using length_concat_update [of j "fw_chans st" "fst (offer sendBufferSize x (fw_chans st ! j))" for x]
  by (auto simp: fw_load_def fw_arrive_def offer_def split: option.split simp del: length_concat)

lemma forward_load:
  assumes "j < length (fw_chans st)" and "fw_chans st ! j = e # es" and "fw_broadcast e (fw_hub st) = Return h"
  shows "Suc (fw_load (st\<lparr>fw_chans := (fw_chans st)[j := es], fw_hub := h\<rparr>)) \<le> fw_load st"
proof -
  have "length (ch_buf (hs_broadcast h)) \<le> Suc (length (ch_buf (hs_broadcast (fw_hub st))))"
    using assms(3) by (auto simp: fw_broadcast_def Broadcast_def try_send_def split: option.splits if_splits)
  moreover have "Suc (length (concat ((fw_chans st)[j := es]))) = length (concat (fw_chans st))"
    using length_concat_update [OF assms(1), of es] assms(2) by (simp del: length_concat)
  ultimately show ?thesis by (simp add: fw_load_def del: length_concat)
qed

lemma hub_broadcast_queue:
  "hub_broadcast msg it h = Return h' \<Longrightarrow>
     hs_broadcast h' = hs_broadcast h \<and> hs_registered h' \<subseteq> hs_registered h"
proof (induction it arbitrary: h)
  case (Cons i it)
  then obtain h1 where h1: "hub_deliver msg i h = Return h1" "hub_broadcast msg it h1 = Return h'"
    by (auto split: outcome.splits)
  have "hs_broadcast h1 = hs_broadcast h \<and> hs_registered h1 \<subseteq> hs_registered h"
    using h1(1) by (auto simp: hub_deliver_def hub_drop_def ws_simps
        split: option.splits outcome.splits if_splits)
  with Cons.IH [OF h1(2)] show ?case by auto
qed simp

lemma takes_load:
  "ws_exec cfg (HubTakes it) h = Return (Some h') \<Longrightarrow>
     Suc (length (ch_buf (hs_broadcast h'))) = length (ch_buf (hs_broadcast h))"
  by (auto simp: map_outcome_Return dest!: hub_broadcast_queue split: if_splits list.splits)

lemma hub_queue:
  assumes "ws_exec cfg l h = Return (Some h')" and "undisturbed i (HubDoes l)" and "\<not> fw_work (HubDoes l)"
  shows "hs_broadcast h' = hs_broadcast h"
  using assms
  by (cases l) (auto simp: map_outcome_Return ws_simps hub_register_def hub_unregister_def hub_drop_def
      client_send_def write_step_def split: option.splits outcome.splits if_splits list.splits)

lemma fw_step_load:
  assumes "fw_step cfg st l st'" and "undisturbed i l"
  shows "length (filter fw_work [l]) + fw_load st' \<le> fw_load st + 2 * length (arrivals [l])"
proof (cases l)
  case (Arrive j s data)
  then show ?thesis using assms(1) arrive_load [of j st s data] by (simp add: fw_step_simps split: if_splits)
next
  case (ForwardNext j)
  then show ?thesis
    using assms(1) by (auto simp: fw_step_simps map_outcome_Return dest!: forward_load [rotated 2] split: if_splits list.splits)
next
  case (HubDoes wl)
  then obtain h where h: "ws_exec cfg wl (fw_hub st) = Return (Some h)"
    and st': "st' = st\<lparr>fw_hub := h, fw_out := written_out wl (fw_hub st) (fw_out st)\<rparr>"
    using assms(1) by (auto simp: fw_step_simps map_outcome_Return dest: sym [of "Some _"])
  show ?thesis
  proof (cases "fw_work l")
    case True
    then obtain it where "wl = HubTakes it" using HubDoes by (auto elim: fw_work.elims)
    then show ?thesis using takes_load [of cfg it "fw_hub st" h] h HubDoes by (simp add: fw_load_def st')
  next
    case False
    then show ?thesis using hub_queue [OF h, of i] assms(2) HubDoes by (simp add: fw_load_def st')
  qed
qed

lemma fw_run_load:
  "\<lbrakk>fw_run cfg st ls st'; list_all (undisturbed i) ls\<rbrakk> \<Longrightarrow>
     length (filter fw_work ls) + fw_load st' \<le> fw_load st + 2 * length (arrivals ls)"
proof (induction rule: fw_run.induct)
  case (snoc st ls st' l st'')
  then show ?case using fw_step_load [OF snoc.hyps(2), of i] by simp
qed simp

text \<open>The hub stays in its reachable states, in which its map is finite.\<close>

lemma hub_drop_registered: "hub_drop i h = Return h' \<Longrightarrow> hs_registered h' \<subseteq> hs_registered h"
  by (auto simp: hub_drop_def ws_simps split: option.splits outcome.splits)

lemma ws_exec_registered:
  assumes "ws_exec cfg l h = Return (Some h')" and "finite (hs_registered h)"
  shows "finite (hs_registered h')"
proof (cases l)
  case (Register i)
  then show ?thesis using assms by (auto simp: hub_register_def split: option.splits if_splits)
next
  case (Unregister i)
  then show ?thesis
    using assms hub_drop_registered [of i h h']
    by (auto simp: map_outcome_Return hub_unregister_def intro: finite_subset split: if_splits)
next
  case (HubTakes it)
  then obtain msg h0 where "hub_broadcast msg it h0 = Return h'" "hs_registered h0 = hs_registered h"
    using assms(1) by (auto simp: map_outcome_Return split: if_splits list.splits)
  then show ?thesis using assms(2) hub_broadcast_queue [of msg it h0 h'] by (auto intro: finite_subset)
next
  case (Announce t resp)
  then show ?thesis
    using assms by (auto simp: map_outcome_Return Broadcast_def split: option.splits outcome.splits)
next
  case (Respond i resp)
  then show ?thesis
    using assms by (auto simp: client_send_def ws_simps split: option.splits outcome.splits)
next
  case (WriteOut i)
  then show ?thesis
    using assms by (auto simp: write_step_def ws_simps split: option.splits list.splits)
qed (use assms in \<open>auto simp: ws_simps split: if_splits\<close>)

lemma ws_reachable_finite: "ws_reachable cfg h \<Longrightarrow> finite (hs_registered h)"
proof (induction rule: ws_reachable.induct)
  case (step h l h')
  then show ?case by (auto simp: ws_step_simps intro: ws_exec_registered)
qed (simp add: NewHub_def)

lemma fw_run_reachable: "\<lbrakk>fw_run cfg st ls st'; ws_reachable cfg (fw_hub st)\<rbrakk> \<Longrightarrow> ws_reachable cfg (fw_hub st')"
proof (induction rule: fw_run.induct)
  case (snoc st ls st' l st'')
  then have r: "ws_reachable cfg (fw_hub st')" and e: "fw_exec cfg l st' = Return (Some st'')"
    by (simp_all add: fw_step_simps)
  show ?case
  proof (cases l)
    case (Arrive j s data)
    then show ?thesis using r e by (auto simp: fw_arrive_def split: if_splits option.splits)
  next
    case (ForwardNext j)
    then obtain ev where "fw_broadcast ev (fw_hub st') = Return (fw_hub st'')"
      using e by (auto simp: map_outcome_Return split: if_splits list.splits)
    then have "fw_hub st'' = fw_hub st' \<or> (\<exists>t resp. ws_step cfg (fw_hub st') (Announce t resp) (fw_hub st''))"
      by (auto simp: fw_broadcast_def ws_step_simps map_outcome_Return split: option.splits)
    then show ?thesis using r by (auto intro: ws_reachable.step)
  next
    case (HubDoes wl)
    then have "ws_step cfg (fw_hub st') wl (fw_hub st'')"
      using e by (auto simp: ws_step_simps map_outcome_Return dest: sym [of "Some _"])
    with r show ?thesis by (rule ws_reachable.step)
  qed
qed simp

text \<open>As long as a channel holds something, its forwarder or the hub can make a step.\<close>

lemma fw_progress:
  assumes "ws_reachable cfg (fw_hub st)" and "\<not> fw_idle st"
  shows "\<exists>l st'. fw_work l \<and> fw_step cfg st l st'"
proof -
  have ok: "hub_ok cfg (fw_hub st)" using assms(1) by (rule ws_reachable_ok)
  show ?thesis
  proof (cases "concat (fw_chans st) = []")
    case False
    then obtain j e es where j: "j < length (fw_chans st)" "fw_chans st ! j = e # es"
      by (metis concat_eq_Nil_conv in_set_conv_nth neq_Nil_conv)
    obtain h where "fw_broadcast e (fw_hub st) = Return h"
      using Broadcast_ok [OF ok] by (cases "broadcast_of_event e") (auto simp: fw_broadcast_def)
    with j have "\<exists>st'. fw_step cfg st (ForwardNext j) st'" by (simp add: fw_step_simps)
    then show ?thesis by (metis fw_work.simps(1))
  next
    case True
    then obtain msg msgs where q: "ch_buf (hs_broadcast (fw_hub st)) = msg # msgs"
      using assms(2) by (auto simp: fw_idle_def neq_Nil_conv)
    obtain it where it: "hub_iteration_ok it (fw_hub st)"
      using finite_distinct_list [OF ws_reachable_finite [OF assms(1)]] by (auto simp: hub_iteration_ok_def)
    from hub_take_ok [OF ok it q] have "\<exists>st'. fw_step cfg st (HubDoes (HubTakes it)) st'"
      using it q by (auto simp: fw_step_simps)
    then show ?thesis by (metis fw_work.simps(2))
  qed
qed

lemma fw_idle_no_work: "fw_idle st \<Longrightarrow> \<not> (\<exists>l st'. fw_work l \<and> fw_step cfg st l st')"
proof
  assume "fw_idle st" and "\<exists>l st'. fw_work l \<and> fw_step cfg st l st'"
  then obtain l st' where l: "fw_work l" "fw_step cfg st l st'" by blast
  have empty: "j < length (fw_chans st) \<Longrightarrow> fw_chans st ! j = []" for j
    using \<open>fw_idle st\<close> by (simp add: fw_idle_def)
  show False
    using l \<open>fw_idle st\<close>
    by (cases l rule: fw_work.cases)
      (auto simp: fw_step_simps fw_idle_def empty simp del: concat_eq_Nil_conv split: if_splits)
qed

text \<open>The world after the subscriptions, before the first event.\<close>

lemma subscribed_hub:
  assumes "wm_Action msg = ActionUserSubscribe" and "wd_Subscribe d c = None" and "ws_reachable cfg (ww_hub w)"
  shows "ws_reachable cfg (ww_hub (ws_repeat d c i msg n w))
    \<and> hs_broadcast (ww_hub (ws_repeat d c i msg n w)) = hs_broadcast (ww_hub w)"
proof (induction n)
  case (Suc n)
  have "ws_reachable cfg (update_client i (ws_subscribe t) h)" if "ws_reachable cfg h" for t h
    using that by (rule ws_reachable.step [of _ _ "SubscribeTo i t"]) (simp add: ws_step_simps)
  then have "ws_reachable cfg h \<Longrightarrow> ws_reachable cfg (fold (\<lambda>t. update_client i (ws_subscribe t)) ts h)" for ts h
    by (induction ts arbitrary: h) simp_all
  moreover have "ws_repeat d c i msg (Suc n) w = fst (ws_subscribe_action d c i msg (ws_repeat d c i msg n w))"
    using assms(1) by (simp add: ws_repeat_def ws_Route_simps)
  ultimately show ?case using Suc assms(2) by (simp add: ws_subscribe_action_def ws_simps)
qed (simp add: ws_repeat_def assms(3))

lemma concat_empty: "concat (replicate k []) = []"
  by (induction k) simp_all

lemma fw_load_start: "ch_buf (hs_broadcast (ww_hub w)) = [] \<Longrightarrow> fw_load (fw_start w) = 0"
  by (simp only: fw_load_def fw_start_def fw_state.simps concat_empty) simp

lemma start_on_the_way:
  assumes "hub_ok cfg (ww_hub w)" and "i \<in> hs_registered (ww_hub w)" and "hs_clients (ww_hub w) i = Some cl"
    and "set ws_eventTypes \<subseteq> wc_subscriptions cl" and "ch_buf (hs_broadcast (ww_hub w)) = []"
  shows "on_the_way cfg i (map enc_ws_response (ch_buf (wc_send cl))) {#} (fw_start w)"
  using assms
  by (intro on_the_wayI [where cl = cl and new = "[]"]) (simp_all add: fw_start_def pending_def concat_empty)

text \<open>A run of given labels, computed.\<close>

fun fw_execs :: "ws_config \<Rightarrow> fw_label list \<Rightarrow> fw_state \<Rightarrow> fw_state option outcome" where
  "fw_execs cfg [] st = Return (Some st)"
| "fw_execs cfg (l # ls) st =
     (case fw_exec cfg l st of
        Return (Some st') \<Rightarrow> fw_execs cfg ls st'
      | r \<Rightarrow> r)"

lemma fw_execs_run: "\<lbrakk>fw_execs cfg ls st' = Return (Some st''); fw_run cfg st ks st'\<rbrakk> \<Longrightarrow> fw_run cfg st (ks @ ls) st''"
proof (induction cfg ls st' arbitrary: ks rule: fw_execs.induct)
  case (2 cfg l ls st')
  then obtain st1 where st1: "fw_exec cfg l st' = Return (Some st1)" "fw_execs cfg ls st1 = Return (Some st'')"
    by (auto split: outcome.splits option.splits)
  have "fw_run cfg st (ks @ [l]) st1"
    using 2(3) st1(1) by (intro fw_run.snoc) (simp_all add: fw_step_simps)
  from 2(1) [OF st1(1) refl st1(2) this] show ?case by simp
qed simp

subsection \<open>Properties\<close>

text \<open>
  C39. After \<open>n\<close> further \<open>user.subscribe\<close> messages of a registered client every event reaches it
  as often as there are forwarders, \<open>n\<close> for these and one for every earlier subscription of whichever
  client: no subscription replaces another, and none is ever ended. NATS delivers each message
  once to each forwarder's subscription; the other clients may do what they like, come and go, be
  slow and be dropped; and the steps of callbacks, forwarders, hub and write pumps interleave in any
  order. The forwarders and the hub then make at most two steps for each event delivered to a
  forwarder, and when none of them can make a step, what was written to the client's connection and
  what is in its buffer are the old buffer followed by \<open>k\<close> copies of the response of each event,
  none lost. This holds as long as the channels on the way have room: for events that in \<open>k\<close> copies
  fit into the hub's channel and into the client's buffer.
\<close>

theorem repeated_subscriptions_repeat_events:
  assumes "wm_Action msg = ActionUserSubscribe" and "wd_Subscribe d c = None" and "0 < n"
    and "ws_reachable cfg (ww_hub w)" and "i \<in> hs_registered (ww_hub w)"
    and "hs_clients (ww_hub w) i = Some cl" and "ch_buf (hs_broadcast (ww_hub w)) = []"
    and "k = ww_forwarders w + n"
    and "fw_run cfg (fw_start (ws_repeat d c i msg n w)) ls st"
    and "list_all (undisturbed i) ls" and "mset (arrivals ls) = mset (List.product [0..<k] ms)"
    and "k * length ms \<le> sendBufferSize"
    and "length (ch_buf (wc_send cl)) + k * length ms \<le> wcfg_SendBufferSize cfg"
  shows "length (filter fw_work ls) \<le> 2 * (k * length ms)
    \<and> (\<not> (\<exists>l st'. fw_work l \<and> fw_step cfg st l st') \<longrightarrow>
        (\<exists>cl' new. hs_clients (fw_hub st) i = Some cl'
          \<and> fw_out st i @ map enc_ws_response (ch_buf (wc_send cl'))
            = map enc_ws_response (ch_buf (wc_send cl) @ new)
          \<and> mset new = repeat_mset k (responses ms)))"
proof -
  let ?w = "ws_repeat d c i msg n w" and ?cl = "cl\<lparr>wc_subscriptions := wc_subscriptions cl \<union> set ws_eventTypes\<rparr>"
  let ?a = "responses (map snd (arrivals ls))"
  have reach: "ws_reachable cfg (ww_hub ?w)" and q: "ch_buf (hs_broadcast (ww_hub ?w)) = []"
    using subscribed_hub [OF assms(1,2,4)] assms(7) by simp_all
  have "i \<in> hs_registered (ww_hub ?w)" "hs_clients (ww_hub ?w) i = Some ?cl"
    using subscribed_world [OF assms(1,2), of i n w] assms(3,5,6) by simp_all
  then have start: "on_the_way cfg i (map enc_ws_response (ch_buf (wc_send cl))) {#} (fw_start ?w)"
    using start_on_the_way [of cfg ?w i ?cl] ws_reachable_ok [OF reach] q by simp
  have "mset (map snd (arrivals ls)) = mset (map snd (List.product [0..<k] ms))"
    using assms(11) by simp
  from responses_perm [OF this] have a: "?a = repeat_mset k (responses ms)"
    by (simp add: responses_product)
  moreover have "k * size (responses ms) \<le> k * length ms" using size_responses by simp
  ultimately have "size ?a \<le> k * length ms" by simp
  then have "on_the_way cfg i (map enc_ws_response (ch_buf (wc_send cl))) ?a st"
    using assms(10,12,13) by (intro fw_run_on_the_way [OF assms(9) start]) simp_all
  then obtain cl' new where new: "hs_clients (fw_hub st) i = Some cl'"
    "fw_out st i @ map enc_ws_response (ch_buf (wc_send cl'))
      = map enc_ws_response (ch_buf (wc_send cl)) @ map enc_ws_response new"
    "mset new + pending st = ?a"
    by (rule on_the_wayE)
  have "\<exists>l st'. fw_work l \<and> fw_step cfg st l st'" if "\<not> fw_idle st"
    using that reach by (intro fw_progress fw_run_reachable [OF assms(9)]) (simp_all add: fw_start_def)
  moreover have "pending st = {#}" if "fw_idle st" using that by (simp only: fw_idle_def pending_def) simp
  moreover have "length (filter fw_work ls) \<le> 2 * (k * length ms)"
    using fw_run_load [OF assms(9,10)] fw_load_start [OF q] arg_cong [OF assms(11), of size] by simp
  ultimately show ?thesis
    using new unfolding a map_append by (cases "fw_idle st") fastforce+
qed

lemma one_client_queue: "ch_buf (hs_broadcast (ww_hub (one_client s))) = []"
  by (simp add: one_client_def hub_register_def ws_simps NewHub_def make_chan_def)

theorem repeated_subscriptions_repeat_events_witness:
  "\<exists>ls st cl new. fw_run ws_DefaultConfig (fw_start (ws_repeat plain_ws (plain_env 1) 0
         (ws_ask ActionUserSubscribe None) 2 (one_client (ada_client, ([], []))))) ls st
    \<and> hs_clients (fw_hub st) 0 = Some cl
    \<and> fw_out st 0 @ map enc_ws_response (ch_buf (wc_send cl)) = map enc_ws_response new
    \<and> mset new = {#deleted_x, deleted_x#}"
proof -
  let ?w = "one_client (ada_client, ([], []))" and ?sub = "ws_ask ActionUserSubscribe None"
  let ?st = "fw_start (ws_repeat plain_ws (plain_env 1) 0 ?sub 2 ?w)"
  let ?x = "Some (enc_deleted_event \<lparr>evt_UserID = ''x''\<rparr>)"
  let ?ls = "[Arrive 1 SubjectUserDeleted ?x, Arrive 0 SubjectUserDeleted ?x, ForwardNext 1,
    HubDoes (HubTakes [0]), ForwardNext 0, HubDoes (WriteOut 0), HubDoes (HubTakes [0])]"
  have "case fw_execs ws_DefaultConfig ?ls ?st of Return (Some st) \<Rightarrow> fw_idle st | _ \<Rightarrow> False"
    by code_simp
  then obtain st where "fw_execs ws_DefaultConfig ?ls ?st = Return (Some st)" and idle: "fw_idle st"
    by (auto split: outcome.splits option.splits simp del: fw_execs.simps)
  then have run: "fw_run ws_DefaultConfig ?st ?ls st"
    using fw_execs_run [OF _ fw_run.nil, of ws_DefaultConfig ?ls ?st st] by simp
  have no_work: "\<not> (\<exists>l st'. fw_work l \<and> fw_step ws_DefaultConfig st l st')"
    using idle by (rule fw_idle_no_work)
  have reach: "ws_reachable ws_DefaultConfig (ww_hub ?w)"
  proof -
    have "ws_step ws_DefaultConfig NewHub (Connect 0) (set_client 0 (newClient ws_DefaultConfig) NewHub)"
      by (simp add: ws_step_simps NewHub_def)
    from ws_reachable.step [OF ws_reachable.start this]
    have "ws_reachable ws_DefaultConfig (set_client 0 (newClient ws_DefaultConfig) NewHub)" .
    then show ?thesis
      by (rule ws_reachable.step [of _ _ "Register 0"])
        (simp add: ws_step_simps one_client_def ws_simps newClient_def make_chan_def)
  qed
  have "mset (arrivals ?ls) = mset (List.product [0..<2] [(SubjectUserDeleted, ?x)])"
    by (simp add: upt_rec)
  from repeated_subscriptions_repeat_events [OF _ _ _ reach _ one_client_simps(4) _ _ run _ this] no_work
  obtain cl new where "hs_clients (fw_hub st) 0 = Some cl"
    "fw_out st 0 @ map enc_ws_response (ch_buf (wc_send cl)) = map enc_ws_response new"
    "mset new = repeat_mset 2 (responses [(SubjectUserDeleted, ?x)])"
    by (auto simp: ws_ask_def plain_ws_def one_client_simps sendBufferSize_def ws_DefaultConfig_def
        one_client_queue)
  moreover have "message_response (SubjectUserDeleted, ?x) = Some deleted_x" by code_simp
  ultimately show ?thesis using run by (intro exI [of _ ?ls] exI [of _ st] exI [of _ cl] exI [of _ new]) (simp add: numeral_2_eq_2)
qed

end
