(* ===== verification/Spec2Isabelle.thy ===== *)
theory Spec2Isabelle
  imports Service_Main Cache_Progress Nats_Delivery Handler_Concurrency Ws_Forwarding
begin

text \<open>
  A verification library for the distributed user management system: two Go services that talk
  over NATS, and the client package between them.

  The program. The user service (\<open>user-service\<close>) keeps users in PostgreSQL. A message on one of
  seven subjects reaches a handler (\<open>internal/adapters/natsadaptor/handler.go\<close>), which decodes and
  validates it, calls the service (\<open>internal/service/user_service.go\<close>) over the repository
  (\<open>internal/adapters/postgresadaptor\<close>), replies, and publishes an event after a creation, an update
  or a deletion. The package \<open>pkg/userclient\<close> is the other end: six RPC methods, a cache of users
  filled at startup and kept up to date from the events by three goroutines and two bounded channels.
  The gateway (\<open>gateway-service\<close>) offers the six operations over HTTP and over WebSocket, both
  through the application, the adapter and the client package, and sends events to the WebSocket
  clients that subscribed, through a hub.

  How the model corresponds to it. A Go struct is a record with a prefix for its fields, an error a
  constructor of \<open>domain_error\<close>, \<open>db_error\<close>, \<open>client_error\<close>, a method a function that takes the
  state it changes and returns it, Go's \<open>(value, error)\<close> a sum, a panic the constructor \<open>Panic\<close> of
  \<open>outcome\<close>, an \<open>int32\<close> a 32 bit word. JSON is a datatype, text is its parse; \<open>encoding/json\<close>'s
  decoding into a struct (missing members, \<open>null\<close>, unknown members, case folding of names) is
  modelled member by member. Log lines are left out but for the log of the requests.

  \<^item> \<open>Ums_Prelude\<close>, \<open>Go_Json\<close>, \<open>Go_Time\<close>: collections of rules, outcomes, decimal numbers; JSON
    values, encoders and decoders; instants and RFC 3339.
  \<^item> \<open>Domain\<close>, \<open>User_Service\<close>: \<open>internal/domain\<close>, \<open>internal/ports\<close>, \<open>internal/service\<close>. The two
    ports are records of methods; what a repository promises is the locale that the service's lemmas
    are proved in.
  \<^item> \<open>Users_Table\<close>, \<open>Postgres_Repository\<close>: the SQL statements of \<open>db/users.sql.go\<close> on a list of rows
    under the two migrations (key, partial unique index on e-mail, column lengths, checks), and the
    repository with its mappers. What the engine decides (generated ids, clock, order of equal rows,
    failures) is the record \<open>pg_env\<close>. The invariant is \<open>table_ok\<close>, the abstraction \<open>pg_users\<close>: the
    live rows as a map from ids to users. The locale of the repository contract is interpreted here.
  \<^item> \<open>Wire_Types\<close>, \<open>Validation\<close>, \<open>Nats_Handler\<close>: \<open>pkg/userclient/types.go\<close>, \<open>subjects.go\<close>, the
    validate tags as data, the seven handlers with their effects (replies and publications) as a list.
  \<^item> \<open>User_Cache\<close>, \<open>User_Client\<close>, \<open>Cache_Sync\<close>, \<open>Client_Lifecycle\<close>: \<open>cache.go\<close>, \<open>client.go\<close>,
    \<open>errors.go\<close>. The connection is a function from subject and data to an answer; Go's order of
    iteration over a map is an argument. \<open>Cache_Sync\<close> has the goroutines as a step relation, of
    which \<open>Cache_Progress\<close> shows that they work off what arrives and come to an end after \<open>Close\<close>;
    \<open>Client_Lifecycle\<close> has the subscriptions of a connection and \<open>Close\<close>.
  \<^item> \<open>Service_Spec\<close>: the specification, an inductive relation \<open>serve\<close> between a user map, an
    operation, its answer and the next map; and the locale of a service that meets it, in which the
    handlers are shown to implement it.
  \<^item> \<open>User_System\<close>: handlers, service, repository and client together. \<open>Nats_Delivery\<close>: \<open>reply\<close> and
    \<open>publishEvent\<close> on a connection that may refuse what they send, and the types on the wire.
    \<open>Handler_Concurrency\<close>: the handlers of different subjects at the same time, as a step relation of
    statements and sends; that a handler makes one call of the repository at most is shown there.
  \<^item> \<open>Gateway_Core\<close>, \<open>Http_Handler\<close>: \<open>gateway-service/internal\<close>: \<open>dto\<close>, \<open>ports\<close>, \<open>app\<close>,
    \<open>userclientadapter\<close>, \<open>httphandler\<close>. The locale \<open>quiet_port\<close> says what the HTTP handlers need of
    the port to not panic. \<open>Request_Logger\<close>: \<open>middleware/logging.go\<close> around every handler, over a
    model of the writer of net/http.
  \<^item> \<open>Ws_Hub\<close>, \<open>Ws_Actions\<close>: \<open>wshandler\<close>: hub and client buffers as a step relation over Go
    channels, the router and its eight actions, what a forwarder makes of an event.
    \<open>Ws_Forwarding\<close>: the forwarders with their bounded channels, interleaved with the hub, the callbacks
    of the subscriptions and the clients. \<open>Ws_Connection\<close>: \<open>ServeHTTP\<close>,
    \<open>readPump\<close> and \<open>writePump\<close> of all connections as a step relation over these, in which the peer's
    frames and every error of the connection are labels.
  \<^item> \<open>Gateway_System\<close>, \<open>Gateway_Requests\<close>, \<open>Ws_Requests\<close>: the gateway over the user service, requests
    and messages as operations of the specification.
  \<^item> \<open>Service_Config\<close>, \<open>Service_Main\<close>: both \<open>internal/config/config.go\<close> and both \<open>cmd/main.go\<close>,
    the latter as the list of calls made for given answers of the world, with the process built.

  What is shown. The handlers over service and repository refine the user map (\<open>serve\<close>), on every
  message that decodes and validates; other messages have no effect; no message, and no failure of the
  database at any point, breaks the table's invariant. Handlers at the same time keep the caches in
  step as long as the events of one user are sent in the order of its changes. Each accepted message
  gets the reply of the service's result, first, and an event exactly after the success of a
  mutation. The client's calls return the specification's answer; its cache, after the
  startup load and after any interleaving that drops nothing, shows exactly the live users; what it
  does under the interleavings that drop or reorder is bounded by an order lemma. The
  gateway's routes and actions do the same operations and report the same errors, and what they
  change is seen through the cache after finitely many steps of its goroutines. Connections leave
  the hub when their read pump ends; the write pump ends after the channel is closed. The programs
  start in the order that the rest relies on, or exit. The remaining theorems pin down where the
  code departs from this: failures that the repository swallows, events that are lost or overtake
  each other, cached listings without an order, WebSocket requests that panic, read pumps that
  block for ever, subscriptions that are never ended and repeat every event.

  Assumptions. What the code imports is a parameter. Where its behaviour matters, the statement has a
  hypothesis: \<open>validator_documented\<close> (the tags mean what the validator's documentation says, with any
  predicates for e-mail addresses and uuids), \<open>uuid_documented\<close> (an id that is printed parses back, and
  a string the validator takes for a uuid is the printed form of one), \<open>pg_good\<close> (no failure of
  connection or server in this call, and an id and an order of rows that the engine can give),
  \<open>op_texts\<close> (the server takes the strings as text), \<open>upgrader_documented\<close> (the WebSocket upgrader
  refuses with an error status or takes the connection over). \<open>Gateway_Requests\<close> and \<open>Ws_Requests\<close> end
  with concrete values that meet them.

  Bounds. Channels have the code's capacity of 256; a drained client is in step when at most that many
  events came, since then no offer finds a full channel; the same bound, on all copies of the events
  together, serves for the forwarders, the hub and the client's buffer. Every function is total, and recursion is
  structural or by a measure; no fuel is used.

  Simplifications: strings in messages are valid UTF-8, as every string is that \<open>json.Unmarshal\<close> or a
  text column yields, so JSON carries them as they are (\<open>json.Marshal\<close> would replace other bytes); a
  channel is made with a positive size, as in \<open>DefaultConfig\<close> (with size 0 Go's channel hands over
  directly, here it is always full); the hub's loop over its clients is one step; a client is
  registered once, by \<open>ServeHTTP\<close>; when an update has both a text too long and an unknown id, the id
  is reported (the engine may report the text, but the handlers let no such text through).

  Not modelled: the generated \<open>db.go\<close> (an interface and a constructor that pass calls on), the
  libraries below the code (routers, NATS, HTTP and WebSocket transport: that a deadline or a ping
  fails is a label, when it does is open), YAML parsing, the inside of a SQL statement (each is one
  step, as no operation of the repository has two), log lines other than the request log.
\<close>

section \<open>The service over the database\<close>


text \<open>
  C1. The NATS handlers over the service and the PostgreSQL repository implement the user map:
  every message that decodes and passes validation, on a call without an infrastructure
  failure, gets the effects of an answer that the specification allows, and moves the table to
  one that shows the specification's next map.
\<close>

theorem handlers_refine_user_map:
  assumes "validator_documented (hd_validate d) is_email is_uuid" and "pg_good e" and "table_ok t"
    and "decoded s data = Some oper" and "accepted d oper" and "op_texts e oper"
  shows "\<exists>a. snd (deliver handler_entries d pg_service e s data t) = op_effects d oper a
    \<and> serve (hd_uuid_parse d) (pg_fresh e t) (pg_users t) oper a
        (pg_users (fst (deliver handler_entries d pg_service e s data t)))"
  using assms by (intro pg_deliver_serves)

theorem handlers_refine_user_map_witness:
  "\<exists>a. snd (deliver handler_entries plain_deps pg_service (plain_env 2) SubjectUpdateUser
        (Some (enc_update_request (ada_update ''Ada''))) [ada_row])
      = op_effects plain_deps (UpdateOp (ada_update ''Ada'')) a
    \<and> serve (hd_uuid_parse plain_deps) (pg_fresh (plain_env 2) [ada_row]) (pg_users [ada_row])
        (UpdateOp (ada_update ''Ada'')) a
        (pg_users (fst (deliver handler_entries plain_deps pg_service (plain_env 2) SubjectUpdateUser
          (Some (enc_update_request (ada_update ''Ada''))) [ada_row])))"
proof (rule handlers_refine_user_map)
  show "validator_documented (hd_validate plain_deps) plain_email plain_uuid"
    using plain_deps_documented by (simp add: documented_def)
  show "decoded SubjectUpdateUser (Some (enc_update_request (ada_update ''Ada''))) =
      Some (UpdateOp (ada_update ''Ada''))"
    by (simp add: wire_simps)
qed (simp_all del: accepted.simps op_texts.simps)

text \<open>
  The specification keeps users under their ids and live e-mail addresses unique, whatever
  operations are asked for.
\<close>

theorem user_map_stays_consistent:
  "\<lbrakk>serve parse fresh m oper a m'; user_map_ok m\<rbrakk> \<Longrightarrow> user_map_ok m'"
  by (rule serve_user_map_ok)

theorem user_map_stays_consistent_witness:
  "user_map_ok [0 \<mapsto> ada]"
proof (rule user_map_stays_consistent)
  show "serve (\<lambda>s. None) True Map.empty (CreateOp (ada_request\<lparr>cr_Status := ''ACTIVE''\<rparr>))
      (UserAnswer ada) [0 \<mapsto> ada]"
    using serve.create [of Map.empty ada "ada_request\<lparr>cr_Status := ''ACTIVE''\<rparr>" "\<lambda>s. None" True]
    by (simp add: ada_def created_user_def ada_request_def new_user_def same_data_def zero_user_def)
qed (simp add: user_map_ok_def)

text \<open>
  C3. The table's invariant (primary key, e-mail addresses unique among the live rows, column
  lengths and checks) survives any messages on any subjects, well formed or not, with failures
  of the database at any point.
\<close>

theorem table_survives_all_messages:
  "table_ok t \<Longrightarrow> table_ok (fst (serve_messages d ms t))"
  by (rule serve_messages_ok)

theorem table_survives_all_messages_witness:
  "table_ok (fst (serve_messages plain_deps
     [((plain_env 2)\<lparr>pe_fault := Some (FailAfter (DriverError ''timeout''))\<rparr>, SubjectUpdateUser,
       Some (enc_update_request (ada_update ''Ada'')))] [ada_row]))"
  by (rule table_survives_all_messages) simp

text \<open>
  C4. Whatever service is behind the handlers, and with no assumption about it: a message that
  decodes and passes validation makes the one call of the service that its operation stands for,
  and the call's result decides what is sent. The reply comes first and is the result's, an error
  as the error reply of the subject; one event follows exactly when the operation is a mutation and
  the service reported it as done, on the mutation's subject and with the user of the reply.
  (What is sent for the other messages is the next property of this section.)
\<close>

theorem one_reply_then_event:
  assumes "decoded s data = Some oper" and "accepted d oper"
    and "service_answer d svc c oper db = (db', a)"
  shows "deliver handler_entries d svc c s data db =
      (db', op_reply d oper a # map (\<lambda>(subject, j). Publish subject j) (op_event d oper a))
    \<and> (op_event d oper a \<noteq> [] \<longleftrightarrow> mutation oper \<and> (\<forall>err. a \<noteq> Failed err))
    \<and> length (op_event d oper a) \<le> 1"
  using deliver_answers [OF assms(1,2), of svc c db] event_after_success [OF assms(3)]
    op_event_length [of d oper a] assms(3)
  by (simp add: op_effects_def del: accepted.simps)

theorem one_reply_then_event_witness:
  "deliver handler_entries plain_deps pg_service (plain_env 2) SubjectDeleteUser
      (Some (enc_id_request \<lparr>ir_UserID = ''x''\<rparr>)) []
    = ([], [delete_error (mapDomainErr ErrUserNotFound)])"
proof -
  have "decoded SubjectDeleteUser (Some (enc_id_request \<lparr>ir_UserID = ''x''\<rparr>)) = Some (DeleteOp ''x'')"
    by (simp add: wire_simps)
  moreover have "service_answer plain_deps pg_service (plain_env 2) (DeleteOp ''x'') []
      = ([], Failed ErrUserNotFound)"
    by code_simp
  ultimately show ?thesis
    using one_reply_then_event [of SubjectDeleteUser "Some (enc_id_request \<lparr>ir_UserID = ''x''\<rparr>)"
        "DeleteOp ''x''" plain_deps pg_service "plain_env 2" "[]" "[]" "Failed ErrUserNotFound"]
    by (simp add: rpc_simps del: accepted.simps)
qed

text \<open>
  C18. A message that does not decode, fails validation or has an id that is no uuid gets a
  validation error in the reply type of its subject; the state is unchanged and nothing is
  published.
\<close>

theorem refused_request_has_no_effect:
  assumes "refused d s data"
  shows "\<exists>m. deliver handler_entries d svc c s data db
    = (db, [error_reply s (rpcErr ErrCodeValidation m)])"
  using assms by (rule deliver_refused)

theorem refused_request_has_no_effect_witness:
  "\<exists>m. deliver handler_entries plain_deps pg_service (plain_env 1) SubjectCreateUser
      (Some (JObj [(''first_name'', JInt 7)])) [ada_row]
    = ([ada_row], [error_reply SubjectCreateUser (rpcErr ErrCodeValidation m)])"
proof (rule refused_request_has_no_effect)
  show "refused plain_deps SubjectCreateUser (Some (JObj [(''first_name'', JInt 7)]))"
    by code_simp
qed

text \<open>
  C36. An update that passes validation but has a string the database refuses as text (a NUL
  byte) changes nothing, yet is answered with the zero user, and the zero user is published as
  updated.
\<close>

theorem refused_text_announces_zero_user:
  assumes "decoded SubjectUpdateUser data = Some (UpdateOp q)" and "accepted d (UpdateOp q)"
    and "pe_fault e = None" and "\<not> op_texts e (UpdateOp q)"
  shows "deliver handler_entries d pg_service e SubjectUpdateUser data t
    = (t, [user_reply (toDTO d zero_user),
           Publish SubjectUserUpdated (enc_user_event \<lparr>evt_User = toDTO d zero_user\<rparr>)])"
proof -
  obtain i where i: "hd_uuid_parse d (ur_UserID q) = Some i" using assms(2) by auto
  have "bad_text e (update_params (update_user i q))"
    using assms(4)
    by (auto simp: bad_text_def texts_ok_def update_user_def new_user_def toNullString_def
        split: option.splits)
  then have "pg_Update e (update_user i q) t = (t, Inr zero_user)"
    using assms(3) by (simp add: pg_Update_def run_stmt_def update_row_def toDomainUser_zero)
  then show ?thesis
    using assms(1,2) i
    by (simp add: rpc_simps store_simps pg_service_def handleUpdate_def Let_def)
qed

theorem refused_text_announces_zero_user_witness:
  "deliver handler_entries plain_deps pg_service (plain_env 2) SubjectUpdateUser
      (Some (enc_update_request (ada_update [CHR 0x00]))) [ada_row]
    = ([ada_row], [user_reply (toDTO plain_deps zero_user),
         Publish SubjectUserUpdated (enc_user_event \<lparr>evt_User = toDTO plain_deps zero_user\<rparr>)])"
  by (rule refused_text_announces_zero_user [of _ "ada_update [CHR 0x00]"])
    (simp_all add: wire_simps del: accepted.simps op_texts.simps)

section \<open>Clients of the service\<close>

text \<open>
  \<open>CreateUser\<close> of the client, over the handlers and the database: the call returns what
  the specification answers, the table shows the specification's next map, and the creation is
  published.
\<close>

theorem client_creates_user:
  "good_call d is_email is_uuid e t (CreateOp q) \<Longrightarrow>
    \<exists>a t' r. client_CreateUser (service_rpc d pg_service e) q (t, log)
        = ((t', log @ op_event d (CreateOp q) a), Return r)
      \<and> serve (hd_uuid_parse d) (pg_fresh e t) (pg_users t) (CreateOp q) a (pg_users t')
      \<and> told_user d a r"
  by (rule client_Create_serves)

theorem client_creates_user_witness:
  "\<exists>a t' r. client_CreateUser (service_rpc plain_deps pg_service (plain_env 1)) ada_request ([], [])
        = ((t', [] @ op_event plain_deps (CreateOp ada_request) a), Return r)
      \<and> serve (hd_uuid_parse plain_deps) (pg_fresh (plain_env 1) []) (pg_users [])
          (CreateOp ada_request) a (pg_users t')
      \<and> told_user plain_deps a r"
  by (rule client_creates_user [of _ plain_email plain_uuid])
    (simp add: good_call_def del: accepted.simps op_texts.simps)

text \<open>The same for \<open>UpdateUser\<close>.\<close>

theorem client_updates_user:
  "good_call d is_email is_uuid e t (UpdateOp q) \<Longrightarrow>
    \<exists>a t' r. client_UpdateUser (service_rpc d pg_service e) q (t, log)
        = ((t', log @ op_event d (UpdateOp q) a), Return r)
      \<and> serve (hd_uuid_parse d) (pg_fresh e t) (pg_users t) (UpdateOp q) a (pg_users t')
      \<and> told_user d a r"
  by (rule client_Update_serves)

theorem client_updates_user_witness:
  "\<exists>a t' r. client_UpdateUser (service_rpc plain_deps pg_service (plain_env 2)) (ada_update ''Ada'')
        ([ada_row], [])
        = ((t', [] @ op_event plain_deps (UpdateOp (ada_update ''Ada'')) a), Return r)
      \<and> serve (hd_uuid_parse plain_deps) (pg_fresh (plain_env 2) [ada_row]) (pg_users [ada_row])
          (UpdateOp (ada_update ''Ada'')) a (pg_users t')
      \<and> told_user plain_deps a r"
  by (rule client_updates_user [of _ plain_email plain_uuid])
    (simp add: good_call_def del: accepted.simps op_texts.simps)

text \<open>The same for \<open>DeleteUser\<close>.\<close>

theorem client_deletes_user:
  "good_call d is_email is_uuid e t (DeleteOp s) \<Longrightarrow>
    \<exists>a t' r. client_DeleteUser (service_rpc d pg_service e) s (t, log)
        = ((t', log @ op_event d (DeleteOp s) a), Return r)
      \<and> serve (hd_uuid_parse d) (pg_fresh e t) (pg_users t) (DeleteOp s) a (pg_users t')
      \<and> told_done d a r"
  by (rule client_Delete_serves)

theorem client_deletes_user_witness:
  "\<exists>a t' r. client_DeleteUser (service_rpc plain_deps pg_service (plain_env 2)) ''x'' ([ada_row], [])
        = ((t', [] @ op_event plain_deps (DeleteOp ''x'') a), Return r)
      \<and> serve (hd_uuid_parse plain_deps) (pg_fresh (plain_env 2) [ada_row]) (pg_users [ada_row])
          (DeleteOp ''x'') a (pg_users t')
      \<and> told_done plain_deps a r"
  by (rule client_deletes_user [of _ plain_email plain_uuid])
    (simp add: good_call_def del: accepted.simps)

text \<open>
  No reply of the handlers makes the client panic: \<open>*resp.User\<close> is dereferenced only
  when the reply has a user. This holds for every service behind the handlers.
\<close>

theorem handler_replies_never_panic:
  "snd (client_CreateUser (service_rpc d svc c) q w) \<noteq> Panic m
   \<and> snd (client_UpdateUser (service_rpc d svc c) q' w) \<noteq> Panic m
   \<and> snd (snd (client_GetUserByID (service_rpc d svc c) i cl w)) \<noteq> Panic m
   \<and> snd (snd (client_GetUserByEmail (service_rpc d svc c) it em cl w)) \<noteq> Panic m"
  using rpc_user_of [of SubjectCreateUser d svc c "enc_create_request q" w m]
    rpc_user_of [of SubjectUpdateUser d svc c "enc_update_request q'" w m]
    rpc_user_of [of SubjectGetUserByID d svc c "enc_id_request \<lparr>ir_UserID = i\<rparr>" w m]
    rpc_user_of [of SubjectGetUserByEmail d svc c "enc_email_request \<lparr>er_Email = em\<rparr>" w m]
  by (auto simp: client_CreateUser_def client_UpdateUser_def client_GetUserByID_def
      client_GetUserByEmail_def split: prod.split option.split)

section \<open>Caches and events\<close>

text \<open>
  C2. Applying the published events in the order of publication turns a cache that shows the
  users before some messages into one that shows the users after them, for any messages that
  meet no database failure and bring no text the database refuses.
\<close>

theorem events_keep_cache_in_step:
  "\<lbrakk>documented d is_email is_uuid; table_ok t; list_all (benign d) ms;
    serve_messages d ms t = (t', evs)\<rbrakk> \<Longrightarrow>
    fold apply_msg evs (client_view d (pg_users t)) = client_view d (pg_users t')"
  by (rule serve_messages_view)

theorem events_keep_cache_in_step_witness:
  "let ms = [(plain_env 2, SubjectUpdateUser, Some (enc_update_request (ada_update ''Ada''))),
             (plain_env 3, SubjectDeleteUser, Some (enc_id_request \<lparr>ir_UserID = ''x''\<rparr>))];
       r = serve_messages plain_deps ms [ada_row]
   in fold apply_msg (snd r) (client_view plain_deps (pg_users [ada_row]))
        = client_view plain_deps (pg_users (fst r))"
proof -
  let ?ms = "[(plain_env 2, SubjectUpdateUser, Some (enc_update_request (ada_update ''Ada''))),
     (plain_env 3, SubjectDeleteUser, Some (enc_id_request \<lparr>ir_UserID = ''x''\<rparr>))]"
  have "decoded SubjectUpdateUser (Some (enc_update_request (ada_update ''Ada''))) =
      Some (UpdateOp (ada_update ''Ada''))"
    and "decoded SubjectDeleteUser (Some (enc_id_request \<lparr>ir_UserID = ''x''\<rparr>)) =
      Some (DeleteOp ''x'')"
    by (simp_all add: wire_simps)
  then have "list_all (benign plain_deps) ?ms"
    using plain_texts(2) by (simp add: benign_def del: decoded_simps)
  then show ?thesis
    using events_keep_cache_in_step [OF plain_deps_documented, of "[ada_row]" ?ms]
    by (simp only: Let_def ada_row_ok prod.collapse simp_thms)
qed

text \<open>
  C9. A client that starts in step, gets the published events in order, no more than one
  channel holds, and has worked all of them off, is in step again, whatever the interleaving of
  its goroutines was.
\<close>

theorem drained_client_in_step:
  assumes "documented d is_email is_uuid" "table_ok t" "list_all (benign d) ms"
    and "serve_messages d ms t = (t', evs)" and "length evs \<le> cacheUpdateBufferSize"
    and "pipe_run (start_pipeline (client_view d (pg_users t))) ls q"
    and "delivered ls = evs" and "\<And>v. Populate v \<notin> set ls"
    and "pl_eventCh q = []" and "pl_updateCh q = []"
  shows "pl_cache q = client_view d (pg_users t')"
  using pipe_quiescent_delivered [OF assms(6,9,10)] assms(5,7,8)
    serve_messages_view [OF assms(1-4)] by simp

theorem drained_client_in_step_witness:
  "let r = serve_messages plain_deps
         [(plain_env 3, SubjectDeleteUser, Some (enc_id_request \<lparr>ir_UserID = ''x''\<rparr>))] [ada_row]
   in client_view plain_deps (pg_users (fst r)) = Map.empty"
proof -
  let ?ms = "[(plain_env 3, SubjectDeleteUser, Some (enc_id_request \<lparr>ir_UserID = ''x''\<rparr>))]"
  let ?evs = "[(SubjectUserDeleted, enc_deleted_event \<lparr>evt_UserID = ''x''\<rparr>)]"
  have snd: "snd (serve_messages plain_deps ?ms [ada_row]) = ?evs" by code_simp
  then have eq: "serve_messages plain_deps ?ms [ada_row]
      = (fst (serve_messages plain_deps ?ms [ada_row]), ?evs)" by (metis prod.collapse)
  have "decoded SubjectDeleteUser (Some (enc_id_request \<lparr>ir_UserID = ''x''\<rparr>)) =
      Some (DeleteOp ''x'')" by (simp add: wire_simps)
  then have benign: "list_all (benign plain_deps) ?ms"
    by (simp add: benign_def del: decoded_simps)
  note run = deleted_event_run [of "client_view plain_deps (pg_users [ada_row])" "''x''"]
  have "pl_cache (start_pipeline (cache_delete ''x'' (client_view plain_deps (pg_users [ada_row]))))
      = client_view plain_deps (pg_users (fst (serve_messages plain_deps ?ms [ada_row])))"
    by (rule drained_client_in_step [OF plain_deps_documented ada_row_ok benign eq _ run])
      (simp_all add: start_pipeline_def cacheUpdateBufferSize_def)
  then show ?thesis
    by (simp add: Let_def start_pipeline_def view_ada cache_delete_def)
qed

text \<open>
  The startup load fills an empty cache with exactly the live users, under their printed
  ids, and marks the client as fully loaded.
\<close>

theorem startup_load_shows_users:
  assumes "documented d is_email is_uuid" and "pg_good e" and "table_ok t"
  shows "NewUserClient (service_rpc d pg_service e) None True (t, log)
    = ((t, log), Inr \<lparr>cl_cache = Some (client_view d (pg_users t)), cl_fullyLoaded = True\<rparr>)"
  using loadCache_in_step [OF assms] by (simp add: NewUserClient_def)

theorem startup_load_shows_users_witness:
  "NewUserClient (service_rpc plain_deps pg_service (plain_env 1)) None True ([ada_row], [])
    = (([ada_row], []),
       Inr \<lparr>cl_cache = Some (client_view plain_deps (pg_users [ada_row])), cl_fullyLoaded = True\<rparr>)"
  by (rule startup_load_shows_users [of _ plain_email plain_uuid]) simp_all

text \<open>
  C8. A lookup by id through a cache in step has the result the service would give, and leaves
  the cache and the world as they are.
\<close>

theorem cached_lookup_is_transparent:
  assumes "good_call d is_email is_uuid e t (GetOp s)"
    and "cl_cache cl = Some (client_view d (pg_users t))"
  shows "\<exists>a r. client_GetUserByID (service_rpc d pg_service e) s cl (t, log)
        = ((t, log), cl, Return r)
      \<and> serve (hd_uuid_parse d) (pg_fresh e t) (pg_users t) (GetOp s) a (pg_users t)
      \<and> told_user d a r"
  using assms by (rule client_Get_in_step)

theorem cached_lookup_is_transparent_witness:
  "\<exists>a r. client_GetUserByID (service_rpc plain_deps pg_service (plain_env 1)) ''x''
        \<lparr>cl_cache = Some (client_view plain_deps (pg_users [ada_row])), cl_fullyLoaded = True\<rparr>
        ([ada_row], [])
      = (([ada_row], []),
         \<lparr>cl_cache = Some (client_view plain_deps (pg_users [ada_row])), cl_fullyLoaded = True\<rparr>,
         Return r)
      \<and> serve (hd_uuid_parse plain_deps) (pg_fresh (plain_env 1) [ada_row]) (pg_users [ada_row])
          (GetOp ''x'') a (pg_users [ada_row])
      \<and> told_user plain_deps a r"
  by (rule cached_lookup_is_transparent [of _ plain_email plain_uuid])
    (simp_all add: good_call_def del: accepted.simps)

text \<open>
  C35. A listing from a fully loaded cache in step is a page of the users the database would
  list, in an order the cache's iteration picks: the database's order by creation time is lost,
  and two pages need not come from the same order.
\<close>

theorem cached_listing_is_a_permutation:
  assumes "documented d is_email is_uuid" "table_ok t"
    and "cl_cache cl = Some (client_view d (pg_users t))" "cl_fullyLoaded cl"
    and "iteration_ok it (client_view d (pg_users t))"
    and "0 \<le> sint (lr_Limit q)" "0 \<le> sint (lr_Offset q)"
    and "full_listing (pg_users t) (lr_Status q) us"
  shows "\<exists>xs. client_ListUsers rpc it q cl w = (w, Return (Inr (Some
        (take (nat (sint (if lr_Limit q = 0 then defaultListLimit else lr_Limit q)))
          (drop (nat (sint (lr_Offset q))) xs)))))
      \<and> mset xs = mset (map (toDTO d) us)"
  using assms by (rule client_List_in_step)

theorem cached_listing_is_a_permutation_witness:
  "\<exists>xs. client_ListUsers (\<lambda>s j w. (w, Inl '''')) [''x''] zero_list_request
      \<lparr>cl_cache = Some (client_view plain_deps (pg_users [ada_row])), cl_fullyLoaded = True\<rparr> ()
    = ((), Return (Inr (Some
        (take (nat (sint (if lr_Limit zero_list_request = 0 then defaultListLimit
                          else lr_Limit zero_list_request)))
          (drop (nat (sint (lr_Offset zero_list_request))) xs)))))
    \<and> mset xs = mset (map (toDTO plain_deps) [toDomainUser ada_row])"
proof (rule cached_listing_is_a_permutation [of _ plain_email plain_uuid "[ada_row]"])
  show "iteration_ok [''x''] (client_view plain_deps (pg_users [ada_row]))"
    by (simp add: iteration_ok_def view_ada)
  show "full_listing (pg_users [ada_row]) (lr_Status zero_list_request) [toDomainUser ada_row]"
    by (simp add: full_listing_def pg_users_ada zero_list_request_def status_selects_def)
qed (simp_all add: zero_list_request_def)

section \<open>The gateway\<close>

text \<open>
  C19. A POST, PUT or DELETE request that decodes, passes validation and meets no infrastructure
  failure goes from the HTTP handler through application, adapter, client, handlers and
  repository: the table moves to one that shows the specification's next map, the change is
  published, and the response has the status and body of the specification's answer.
\<close>

theorem gateway_serves_mutations:
  assumes "http_over h d it is_email is_uuid"
    and "(k, act) \<in> set RegisterRoutes" "fst k \<noteq> ''GET''"
    and "http_operation k r = Some oper" and "good_call d is_email is_uuid e t oper"
  shows "\<exists>a t' resp. act h e r (cl, (t, log)) = ((cl, (t', log @ op_event d oper a)), Return resp)
      \<and> serve (hd_uuid_parse d) (pg_fresh e t) (pg_users t) oper a (pg_users t')
      \<and> http_answer d (success_status k) a resp"
  using assms by (rule http_mutation_serves)

theorem gateway_serves_mutations_witness:
  "\<exists>a t' resp. http_handleCreate plain_gateway (plain_env 1)
        (http_post (enc_create_request ada_request)) (ada_client, ([], []))
      = ((ada_client, (t', [] @ op_event plain_deps (CreateOp ada_request) a)), Return resp)
      \<and> serve (hd_uuid_parse plain_deps) (pg_fresh (plain_env 1) []) (pg_users [])
          (CreateOp ada_request) a (pg_users t')
      \<and> http_answer plain_deps (success_status (''POST'', PathUsers)) a resp"
  by (rule gateway_serves_mutations [of _ _ "\<lambda>_. [''x'']" plain_email plain_uuid])
    (simp_all add: RegisterRoutes_def good_call_def del: accepted.simps op_texts.simps)

text \<open>
  A GET request for a user by id, through a client whose cache is in step with the table, gets
  the response to the answer of the specification, and neither the cache nor the world changes.
\<close>

theorem gateway_lookup_through_cache:
  assumes "http_over h d it is_email is_uuid"
    and "good_call d is_email is_uuid e t (GetOp (hr_param r ''id''))"
    and "cl_cache cl = Some (client_view d (pg_users t))"
  shows "\<exists>a resp. http_handleGetByID h e r (cl, (t, log)) = ((cl, (t, log)), Return resp)
      \<and> serve (hd_uuid_parse d) (pg_fresh e t) (pg_users t) (GetOp (hr_param r ''id'')) a (pg_users t)
      \<and> http_answer d StatusOK a resp"
  using assms by (rule http_get_serves)

theorem gateway_lookup_through_cache_witness:
  "\<exists>a resp. http_handleGetByID plain_gateway (plain_env 1) (http_get ''x'') (ada_client, ([ada_row], []))
      = ((ada_client, ([ada_row], [])), Return resp)
      \<and> serve (hd_uuid_parse plain_deps) (pg_fresh (plain_env 1) [ada_row]) (pg_users [ada_row])
          (GetOp (hr_param (http_get ''x'') ''id'')) a (pg_users [ada_row])
      \<and> http_answer plain_deps StatusOK a resp"
  by (rule gateway_lookup_through_cache [of _ _ "\<lambda>_. [''x'']" plain_email plain_uuid])
    (simp_all add: good_call_def http_get_def ada_client_def del: accepted.simps)

text \<open>
  C20. A change made through the gateway becomes visible through its cache: take a POST, PUT or
  DELETE request on a client in step, and any interleaving of the cache's goroutines in which the
  published events have arrived. They make at most two steps for each event; and after these
  steps, unless one of them can still act, a GET request for any id is answered from the users
  as the request has left them, with the response to the specification's answer.
\<close>

theorem mutation_becomes_visible:
  assumes h: "http_over h d it is_email is_uuid"
    and mut: "(k, act) \<in> set RegisterRoutes" "fst k \<noteq> ''GET''" "http_operation k r = Some oper"
      "good_call d is_email is_uuid e t oper"
    and did: "act h e r (cl, (t, log)) = ((cl, (t', log @ evs)), out)"
    and run: "pipe_run (start_pipeline (client_view d (pg_users t))) ls q" "delivered ls = evs"
      "CloseStop \<notin> set ls" "\<And>v. Populate v \<notin> set ls"
    and get: "pg_good e'" "accepted d (GetOp (hr_param g ''id''))" "cl_cache cl' = Some (pl_cache q)"
  shows "length (filter pipe_work ls) \<le> 2 * length evs
    \<and> ((\<exists>l p. pipe_work l \<and> pipe_step q l p)
      \<or> (\<exists>a resp. http_handleGetByID h e' g (cl', (t', log')) = ((cl', (t', log')), Return resp)
          \<and> serve (hd_uuid_parse d) (pg_fresh e' t') (pg_users t') (GetOp (hr_param g ''id'')) a
              (pg_users t')
          \<and> http_answer d StatusOK a resp))"
proof -
  obtain a where evs: "evs = op_event d oper a"
    and s: "serve (hd_uuid_parse d) (pg_fresh e t) (pg_users t) oper a (pg_users t')"
    using http_mutation_serves [OF h mut, of cl log] did by auto
  have doc: "documented d is_email is_uuid" and acc: "accepted d oper" and ok: "table_ok t"
    using mut(4) by (simp_all add: good_call_def)
  have "table_ok t'"
    using http_mutation_ok [of h d it k act t e r cl log] h mut(1,2) ok did
    by (simp add: http_over_def)
  then have good: "good_call d is_email is_uuid e' t' (GetOp (hr_param g ''id''))"
    using doc get(1,2) by (simp add: good_call_def del: accepted.simps)
  have uuid: "uuid_documented d is_uuid" using doc by (simp add: documented_def)
  have view: "fold apply_msg evs (client_view d (pg_users t)) = client_view d (pg_users t')"
    unfolding evs by (rule serve_event_view [OF s uuid accepted_canonical [OF doc acc]])
  have "length (delivered ls) \<le> cacheUpdateBufferSize"
    using op_event_length [of d oper a] run(2) evs by (simp add: cacheUpdateBufferSize_def)
  from events_worked_off [OF run(1,3,4) this] run(2) view
  show ?thesis using http_get_serves [OF h good, of cl' log'] get(3) by auto
qed

theorem mutation_becomes_visible_witness:
  "\<exists>t' evs out ls q cl resp. http_handleDelete plain_gateway (plain_env 2) (http_get ''x'')
        (ada_client, ([ada_row], [])) = ((ada_client, (t', evs)), out)
    \<and> pipe_run (start_pipeline (client_view plain_deps (pg_users [ada_row]))) ls q
    \<and> delivered ls = evs \<and> cl_cache cl = Some (pl_cache q)
    \<and> http_handleGetByID plain_gateway (plain_env 3) (http_get ''x'') (cl, (t', []))
        = ((cl, (t', [])), Return resp)"
proof -
  let ?k = "(''DELETE'', PathUserByID)"
  let ?c = "client_view plain_deps (pg_users [ada_row])"
  let ?del = "start_pipeline (cache_delete ''x'' ?c)"
  let ?cl = "\<lparr>cl_cache = Some (pl_cache ?del), cl_fullyLoaded = True\<rparr>"
  have act: "(?k, http_handleDelete) \<in> set RegisterRoutes" by (simp add: RegisterRoutes_def)
  have get: "fst ?k \<noteq> ''GET''" by simp
  have oper: "http_operation ?k (http_get ''x'') = Some (DeleteOp ''x'')" by code_simp
  have good: "good_call plain_deps plain_email plain_uuid (plain_env 2) [ada_row] (DeleteOp ''x'')"
    by (simp add: good_call_def del: accepted.simps)
  obtain a t' out where did: "http_handleDelete plain_gateway (plain_env 2) (http_get ''x'')
        (ada_client, ([ada_row], [])) = ((ada_client, (t', [] @ op_event plain_deps (DeleteOp ''x'') a)), out)"
    and s: "serve (hd_uuid_parse plain_deps) (pg_fresh (plain_env 2) [ada_row]) (pg_users [ada_row])
        (DeleteOp ''x'') a (pg_users t')"
    using http_mutation_serves [OF plain_over(1) act get oper good, of ada_client "[]"] by blast
  have "a = Done" using s by (rule serve_DeleteE) (simp_all add: pg_users_ada plain_deps_def)
  then have ev: "op_event plain_deps (DeleteOp ''x'') a =
      [(SubjectUserDeleted, enc_deleted_event \<lparr>evt_UserID = ''x''\<rparr>)]" by simp
  let ?ls = "[Deliver SubjectUserDeleted (Some (enc_deleted_event \<lparr>evt_UserID = ''x''\<rparr>)), Forward,
    Apply \<lparr>cu_eventType = ''deleted'', cu_user = None, cu_userID = ''x''\<rparr>]"
  have run: "pipe_run (start_pipeline ?c) ?ls ?del" by (rule deleted_event_run)
  have acc: "accepted plain_deps (GetOp (hr_param (http_get ''x'') ''id''))"
    by (simp add: http_get_def del: accepted.simps)
  have stuck: "\<not> (\<exists>l p. pipe_work l \<and> pipe_step ?del l p)"
    by (auto simp: start_pipeline_def elim!: pipe_work.elims(2))
  have "\<exists>resp. http_handleGetByID plain_gateway (plain_env 3) (http_get ''x'') (?cl, (t', []))
      = ((?cl, (t', [])), Return resp)"
    using mutation_becomes_visible [OF plain_over(1) act get oper good did run _ _ _ _ acc,
        of "plain_env 3" ?cl "[]"] stuck ev
    by auto
  with did run ev show ?thesis
    by (intro exI [of _ t'] exI [of _ "op_event plain_deps (DeleteOp ''x'') a"] exI [of _ out]
        exI [of _ ?ls] exI [of _ ?del] exI [of _ ?cl]) simp
qed

text \<open>
  C23. The gateway checks what the service checks: a request that does not decode, or that the
  service would refuse, is answered with status 400 and goes no further, so that nothing changes.
\<close>

theorem gateway_refuses_bad_requests:
  assumes "validator_documented (hh_validate h) is_email is_uuid" and "documented d is_email is_uuid"
    and "(k, act) \<in> set RegisterRoutes" "k \<noteq> (''GET'', PathHealth)"
    and "case http_operation k r of None \<Rightarrow> True | Some oper \<Rightarrow> \<not> accepted d oper"
  shows "\<exists>body. act h c r s = (s, Return (writeJSON StatusBadRequest body))"
  using assms by (rule http_refused)

theorem gateway_refuses_bad_requests_witness:
  "\<exists>body. http_handleGetByID plain_gateway (plain_env 1) (http_get ''y'') (ada_client, ([ada_row], []))
    = ((ada_client, ([ada_row], [])), Return (writeJSON StatusBadRequest body))"
proof (rule gateway_refuses_bad_requests [of plain_gateway plain_email plain_uuid plain_deps
      "(''GET'', PathUserByID)" http_handleGetByID])
  have "\<not> accepted plain_deps (GetOp ''y'')" by code_simp
  then show "case http_operation (''GET'', PathUserByID) (http_get ''y'') of
      None \<Rightarrow> True | Some oper \<Rightarrow> \<not> accepted plain_deps oper"
    by simp
  show "((''GET'', PathUserByID), http_handleGetByID) \<in> set RegisterRoutes"
    by (simp add: RegisterRoutes_def)
qed (simp_all add: path_defs)

text \<open>
  C25. No HTTP request makes a handler panic, whatever service and whatever cache is behind the
  gateway: what the cache's slicing needs is checked before.
\<close>

theorem http_requests_never_panic:
  assumes "validator_documented (hh_validate h) is_email is_uuid"
    and "hh_service h = gateway_app d svc it" and "(k, act) \<in> set RegisterRoutes"
  shows "snd (act h c r s) \<noteq> Panic m"
  using assms by (rule gateway.routes_quiet)

theorem http_requests_never_panic_witness:
  "snd (http_handleList plain_gateway (plain_env 1) (http_get ''x'') (ada_client, ([ada_row], [])))
    \<noteq> Panic ''slice bounds out of range''"
proof (rule http_requests_never_panic [of plain_gateway plain_email plain_uuid plain_deps pg_service
      "\<lambda>_. [''x'']" "(''GET'', PathUsers)" http_handleList])
  show "((''GET'', PathUsers), http_handleList) \<in> set RegisterRoutes" by (simp add: RegisterRoutes_def)
  show "hh_service plain_gateway = gateway_app plain_deps pg_service (\<lambda>_. [''x''])"
    by (simp add: plain_gateway_def)
qed simp

text \<open>
  C24. For an operation that passes validation (\<open>accepted\<close>), a WebSocket message and an HTTP
  request that ask for it do the same to the service and get the same answer: the same body or an
  error with the same code and message. Without the condition they differ, since only the HTTP
  handlers validate: they answer a refused operation with status 400 and a text of their own, while
  the message goes on to the client package, which panics on some of them (see the negative offset
  below) and passes the others to the service.
\<close>

theorem ws_and_http_agree:
  assumes "validator_documented (hh_validate h) is_email is_uuid" and "documented d is_email is_uuid"
    and "(k, act) \<in> set RegisterRoutes" and "http_operation k r = Some oper" and "accepted d oper"
    and "ws_operation msg = Some oper" and "wd_svc wd = hh_service h"
  shows "fst (act h c r (ww_port w)) = ww_port (fst (ws_Route wd c i msg w))
    \<and> same_answer (snd (ws_Route wd c i msg w)) (snd (act h c r (ww_port w)))"
  using respond_same http_asks [OF assms(1-5), of c "ww_port w"] ws_asks [OF assms(6), of wd c i w]
    assms(7) by simp

theorem ws_and_http_agree_witness:
  "let w = one_client (ada_client, ([ada_row], []));
       ws = ws_Route plain_ws (plain_env 1) 0
              (ws_ask ActionUserGetByID (Some (JObj [(''user_id'', JStr ''x'')]))) w;
       http = http_handleGetByID plain_gateway (plain_env 1) (http_get ''x'') (ww_port w)
   in fst http = ww_port (fst ws) \<and> same_answer (snd ws) (snd http)"
  unfolding Let_def
proof (rule ws_and_http_agree [of plain_gateway plain_email plain_uuid plain_deps
      "(''GET'', PathUserByID)" http_handleGetByID _ "GetOp ''x''"])
  show "((''GET'', PathUserByID), http_handleGetByID) \<in> set RegisterRoutes"
    by (simp add: RegisterRoutes_def)
  show "wd_svc plain_ws = hh_service plain_gateway" by (simp add: plain_ws_def plain_gateway_def)
qed (simp_all del: accepted.simps)

text \<open>
  C33. Limit and offset of a listing, printed in decimal into a query, are read back by the list
  route, up to the bounds of the validate tags.
\<close>

theorem list_query_round_trip:
  assumes "validator_documented (hh_validate h) is_email is_uuid"
    and "hr_query r = list_query_of q" and "pred_option (\<lambda>st. st \<in> set statuses) (gl_Status q)"
    and "1 \<le> sint (gl_Limit q)" and "sint (gl_Limit q) \<le> 1000" and "0 \<le> sint (gl_Offset q)"
  shows "parseListRequest h r = Inr q"
  using assms by (rule parseListRequest_print)

theorem list_query_round_trip_witness:
  "parseListRequest plain_gateway \<lparr>hr_param = (\<lambda>_. ''''),
      hr_query = list_query_of \<lparr>gl_Status = Some ''ACTIVE'', gl_Limit = 50, gl_Offset = 100\<rparr>,
      hr_body = None\<rparr>
    = Inr \<lparr>gl_Status = Some ''ACTIVE'', gl_Limit = 50, gl_Offset = 100\<rparr>"
  by (rule list_query_round_trip [of _ plain_email plain_uuid]) (simp_all add: statuses_def status_defs)

text \<open>
  A list request that leaves the parser is within the bounds: a limit from 1 to 1000, an
  offset from 0, and a status of the three or none, whatever the query says.
\<close>

theorem list_query_bounds:
  assumes "validator_documented (hh_validate h) is_email is_uuid"
    and "parseListRequest h r = Inr req"
  shows "pred_option (\<lambda>s. s \<in> set statuses) (gl_Status req)
    \<and> 1 \<le> sint (gl_Limit req) \<and> sint (gl_Limit req) \<le> 1000 \<and> 0 \<le> sint (gl_Offset req)"
  using assms by (rule parseListRequest_ok)

theorem list_query_bounds_witness:
  "1 \<le> sint (gl_Limit \<lparr>gl_Status = None, gl_Limit = 20, gl_Offset = 0\<rparr>)
    \<and> sint (gl_Limit \<lparr>gl_Status = None, gl_Limit = 20, gl_Offset = 0\<rparr>) \<le> 1000"
proof -
  have "parseListRequest plain_gateway (http_get '''') =
      Inr \<lparr>gl_Status = None, gl_Limit = 20, gl_Offset = 0\<rparr>"
    by code_simp
  from list_query_bounds [OF plain_over(2) this] show ?thesis by simp
qed

text \<open>
  C37. A \<open>user.list\<close> message with a negative offset panics the gateway when the cache is fully
  loaded and has a user to list: the WebSocket handler does not validate, and the cache slices
  from the offset.
\<close>

theorem ws_listing_panics_on_negative_offset:
  assumes "ws_operation msg = Some (ListOp q)" and "sint (lr_Offset q) < 0"
    and "wd_svc wd = gateway_app d svc it" and "ww_port w = (cl, db)"
    and "cl_cache cl = Some cache" "cl_fullyLoaded cl"
    and "iteration_ok (it c) cache" and "u \<in> ran cache" "status_wanted (lr_Status q) u"
  shows "\<exists>m. snd (ws_Route wd c i msg w) = Panic m"
  using assms by (rule ws_list_negative_offset)

theorem ws_listing_panics_on_negative_offset_witness:
  "\<exists>m. snd (ws_Route plain_ws (plain_env 1) 0
      (ws_ask ActionUserList (Some (JObj [(''Offset'', JInt (- 1))])))
      (one_client (ada_client, ([ada_row], [])))) = Panic m"
proof (rule ws_listing_panics_on_negative_offset [of _ "\<lparr>lr_Status = None, lr_Limit = 20, lr_Offset = - 1\<rparr>"
      _ plain_deps pg_service "\<lambda>_. [''x'']" _ ada_client "([ada_row], [])"])
  show "cl_cache ada_client = Some (client_view plain_deps (pg_users [ada_row]))"
    by (simp add: ada_client_def)
  show "iteration_ok [''x''] (client_view plain_deps (pg_users [ada_row]))"
    by (simp add: iteration_ok_def view_ada)
qed (simp_all add: plain_ws_def one_client_def ada_client_def view_ada status_wanted_def)

text \<open>
  Whatever a client asks, the response carries the action and the request id of the message,
  and it has an error exactly when it does not report success.
\<close>

theorem ws_answer_matches_request:
  assumes "snd (ws_Route d c i msg w) = Return resp"
  shows "wr_Action resp = wm_Action msg \<and> wr_RequestID resp = wm_RequestID msg
    \<and> (wr_Success resp \<longleftrightarrow> wr_Error resp = None)"
  using ws_Route_answers [OF assms] by (simp add: answers_def)

theorem ws_answer_matches_request_witness:
  "let msg = ws_ask ''user.rename'' None;
       resp = ws_errorResponse msg ''UNKNOWN_ACTION'' ''unknown action: user.rename''
   in wr_RequestID resp = ''1'' \<and> \<not> wr_Success resp"
proof -
  have "snd (ws_Route plain_ws (plain_env 1) 0 (ws_ask ''user.rename'' None)
        (one_client (ada_client, ([ada_row], []))))
      = Return (ws_errorResponse (ws_ask ''user.rename'' None) ''UNKNOWN_ACTION''
          ''unknown action: user.rename'')"
    by (simp add: ws_Route_def NewActionRouter_def action_defs ws_ask_def)
  from ws_answer_matches_request [OF this] show ?thesis
    by (simp add: Let_def ws_ask_def ws_errorResponse_def)
qed

text \<open>
  C34. After \<open>user.unsubscribe\<close> the client's buffer gets no event any more, however many
  forwarders run.
\<close>

theorem unsubscribed_client_gets_no_events:
  assumes "wm_Action msg = ActionUserUnsubscribe" and "w' = fst (ws_Route d c i msg w)"
    and "hub_takes_all (event_broadcasts s data v) its (ww_hub w') = Return h"
  shows "hs_clients h i = hs_clients (ww_hub w') i"
  using assms by (rule unsubscribed_gets_nothing)

theorem unsubscribed_client_gets_no_events_witness:
  "let w = fst (ws_Route plain_ws (plain_env 1) 0 (ws_ask ActionUserUnsubscribe None)
         (ws_repeat plain_ws (plain_env 1) 0 (ws_ask ActionUserSubscribe None) 1
           (one_client (ada_client, ([], [])))));
       bs = event_broadcasts SubjectUserDeleted (Some (enc_deleted_event \<lparr>evt_UserID = ''x''\<rparr>)) w
   in bs = [(''user.deleted'', deleted_x)]
    \<and> (\<exists>h. hub_takes_all bs [[0]] (ww_hub w) = Return h \<and> hs_clients h 0 = hs_clients (ww_hub w) 0)"
proof -
  let ?v = "ws_repeat plain_ws (plain_env 1) 0 (ws_ask ActionUserSubscribe None) 1
      (one_client (ada_client, ([], [])))"
  let ?w = "fst (ws_Route plain_ws (plain_env 1) 0 (ws_ask ActionUserUnsubscribe None) ?v)"
  let ?bs = "event_broadcasts SubjectUserDeleted (Some (enc_deleted_event \<lparr>evt_UserID = ''x''\<rparr>)) ?w"
  have v: "ww_forwarders ?v = 1" "hs_clients (ww_hub ?v) 0 \<noteq> None"
    using subscribed_world [of "ws_ask ActionUserSubscribe None" plain_ws "plain_env 1" 0 1
        "one_client (ada_client, ([], []))"]
    by (simp_all add: ws_ask_def plain_ws_def one_client_simps)
  have bs: "?bs = [(''user.deleted'', deleted_x)]"
    using v(1) by (simp add: deleted_x_event ws_Route_simps ws_ask_def ws_unsubscribe_action_def)
  obtain h where h: "hub_takes_all ?bs [[0]] (ww_hub ?w) = Return h"
    using v(2) unfolding bs
    by (auto simp: ws_Route_simps ws_ask_def ws_unsubscribe_action_def hub_deliver_def ws_simps
        ws_unsubscribe_def isSubscribed_def ws_eventTypes_def)
  have "hs_clients h 0 = hs_clients (ww_hub ?w) 0"
    by (rule unsubscribed_client_gets_no_events [OF _ refl h]) (simp add: ws_ask_def)
  with bs h show ?thesis unfolding Let_def by (intro conjI exI)
qed

end
